theory Spec2Isabelle
  imports Main "HOL-Library.Word"
begin

section \<open>Field-sensitive pruned liveness (lib/SIL/Utils/FieldSensitivePrunedLiveness.cpp)\<close>

text \<open>
  A shallow embedding of the leaf model, the block liveness engine, the two live-range
  variants and the boundary resolver of \<^verbatim>\<open>FieldSensitivePrunedLiveness.cpp\<close>.
  The C++ \<^verbatim>\<open>unsigned\<close> counters of the leaf model are 32-bit words; indices into a
  bit vector are natural numbers below the vector's size.
\<close>

subsection \<open>Failures\<close>

text \<open>
  The ways the C++ stops instead of returning: a failed \<^verbatim>\<open>assert\<close> (also the ones
  inside the SIL accessors, such as reading element \<open>i\<close> of a type that is not a tuple),
  and \<^verbatim>\<open>llvm_unreachable\<close>.
\<close>

datatype error = AssertionFailed | Unreachable

subsection \<open>Types and their sub-element count\<close>

text \<open>
  Modelled from the spec: \<^verbatim>\<open>SILType\<close>, declared in a header that is not among the
  sources, as the structural type queries of section 6 of the specification show it to
  \<^verbatim>\<open>TypeSubElementCount\<close>: a tuple with its element types; a struct with
  \<^verbatim>\<open>hasUnreferenceableStorage\<close>, \<^verbatim>\<open>isValueTypeWithDeinit\<close> and the types of its stored
  properties in declaration order; an enum with one entry per element, \<open>Some payload\<close>
  exactly when the element has associated values; anything else.
\<close>

datatype SILType =
    TupleType "SILType list"
  | StructType bool bool "SILType list"
  | EnumType "SILType option list"
  | OtherType

text \<open>
  The constructor \<^verbatim>\<open>TypeSubElementCount::TypeSubElementCount\<close> (lines 55-105). Each
  \<open>foldl\<close> is one of its \<^verbatim>\<open>for\<close> loops over \<^verbatim>\<open>numElements\<close>; a struct whose storage is
  not fully referenceable is no enum either and keeps the default \<open>number(1)\<close>.
\<close>

fun TypeSubElementCount :: "SILType \<Rightarrow> 32 word" where
  "TypeSubElementCount (TupleType elts) =
     foldl (\<lambda>numElements elt. numElements + TypeSubElementCount elt) 0 elts"
| "TypeSubElementCount (StructType unreferenceable deinit fields) =
     (if unreferenceable then 1
      else let numElements =
                 foldl (\<lambda>numElements fieldTy. numElements + TypeSubElementCount fieldTy) 0 fields;
               number = (if deinit then numElements + 1 else numElements)
           in if number = 0 then 1 else number)"
| "TypeSubElementCount (EnumType elts) =
     foldl (\<lambda>numElements eltDecl.
              case eltDecl of
                None \<Rightarrow> numElements
              | Some elt \<Rightarrow> max numElements (TypeSubElementCount elt)) 0 elts + 1"
| "TypeSubElementCount OtherType = 1"

text \<open>The payload types of the elements of an enum that have associated values.\<close>

definition payloadTypes :: "SILType option list \<Rightarrow> SILType list" where
  "payloadTypes elts = concat (map (\<lambda>eltDecl. case eltDecl of None \<Rightarrow> [] | Some elt \<Rightarrow> [elt]) elts)"

subsection \<open>Values and projections\<close>

text \<open>
  Modelled from the spec: \<^verbatim>\<open>SILValue\<close> and the instruction classes, declared in
  headers that are not among the sources, as the projection chains of section 3 of the
  specification: the values that \<^verbatim>\<open>SubElementOffset::computeForAddress\<close> and
  \<^verbatim>\<open>computeForValue\<close> tell apart. Every value carries an identity (the C++ compares
  \<^verbatim>\<open>SILValue\<close>s by pointer) and its type; an instruction also carries its operands, so
  that an operand chain is finite as it is in SSA form. \<open>StoreBorrowInst\<close> has the stored
  value and the destination; the projections have their operand and the index of the
  tuple element, stored property or destructure result. \<open>OtherValue\<close> is every value of
  another kind (a function argument, \<^verbatim>\<open>alloc_stack\<close>, \<^verbatim>\<open>load\<close>, a result of another
  multiple-value instruction, ...).
\<close>

datatype SILValue =
    OtherValue nat SILType
  | ProjectBoxInst nat SILType SILValue
  | BeginAccessInst nat SILType SILValue
  | StoreBorrowInst nat SILType SILValue SILValue
  | MoveOnlyWrapperToCopyableAddrInst nat SILType SILValue
  | TupleElementAddrInst nat SILType SILValue nat
  | StructElementAddrInst nat SILType SILValue nat
  | UncheckedTakeEnumDataAddrInst nat SILType SILValue
  | InitEnumDataAddrInst nat SILType SILValue
  | BeginBorrowInst nat SILType SILValue
  | CopyValueInst nat SILType SILValue
  | MoveOnlyWrapperToCopyableValueInst nat SILType SILValue
  | TupleExtractInst nat SILType SILValue nat
  | DestructureStructResult nat SILType SILValue nat
  | DestructureTupleResult nat SILType SILValue nat
  | StructExtractInst nat SILType SILValue nat
  | UncheckedEnumDataInst nat SILType SILValue

primrec getType :: "SILValue \<Rightarrow> SILType" where
  "getType (OtherValue i ty) = ty"
| "getType (ProjectBoxInst i ty v) = ty"
| "getType (BeginAccessInst i ty v) = ty"
| "getType (StoreBorrowInst i ty src dest) = ty"
| "getType (MoveOnlyWrapperToCopyableAddrInst i ty v) = ty"
| "getType (TupleElementAddrInst i ty v n) = ty"
| "getType (StructElementAddrInst i ty v n) = ty"
| "getType (UncheckedTakeEnumDataAddrInst i ty v) = ty"
| "getType (InitEnumDataAddrInst i ty v) = ty"
| "getType (BeginBorrowInst i ty v) = ty"
| "getType (CopyValueInst i ty v) = ty"
| "getType (MoveOnlyWrapperToCopyableValueInst i ty v) = ty"
| "getType (TupleExtractInst i ty v n) = ty"
| "getType (DestructureStructResult i ty v n) = ty"
| "getType (DestructureTupleResult i ty v n) = ty"
| "getType (StructExtractInst i ty v n) = ty"
| "getType (UncheckedEnumDataInst i ty v) = ty"

text \<open>
  Modelled from the spec: \<^verbatim>\<open>SILType::getTupleElementType(i)\<close>, declared in a header
  that is not among the sources: the element \<open>i\<close> of a tuple type, as the enumeration of
  stored fields in declaration order of section 6 of the specification. The accessor
  asserts that the type is a tuple and has the element.
\<close>

fun getTupleElementType :: "SILType \<Rightarrow> nat \<Rightarrow> error + SILType" where
  "getTupleElementType (TupleType elts) i =
     (if i < length elts then Inr (elts ! i) else Inl AssertionFailed)"
| "getTupleElementType ty i = Inl AssertionFailed"

text \<open>
  Modelled from the spec: the stored properties of \<^verbatim>\<open>getStructDecl()\<close>, declared in
  headers that are not among the sources: the stored fields of a struct in declaration
  order (section 6 of the specification), each with its type as \<^verbatim>\<open>getFieldType\<close> gives
  it. The accessor asserts that the operand has a struct type.
\<close>

fun getStoredProperties :: "SILType \<Rightarrow> error + SILType list" where
  "getStoredProperties (StructType unreferenceable deinit fields) = Inr fields"
| "getStoredProperties ty = Inl AssertionFailed"

text \<open>
  The loop \<^verbatim>\<open>for (unsigned i : range(getFieldIndex())) finalSubElementOffset += ...\<close>
  of the tuple projections, over the indices it visits.
\<close>

fun addTupleElementsBefore :: "SILType \<Rightarrow> nat list \<Rightarrow> 32 word \<Rightarrow> error + 32 word" where
  "addTupleElementsBefore tupleType [] finalSubElementOffset = Inr finalSubElementOffset"
| "addTupleElementsBefore tupleType (i # rest) finalSubElementOffset =
     (case getTupleElementType tupleType i of
        Inl e \<Rightarrow> Inl e
      | Inr elt \<Rightarrow>
          addTupleElementsBefore tupleType rest (finalSubElementOffset + TypeSubElementCount elt))"

text \<open>
  The loop over \<^verbatim>\<open>structDecl->getStoredProperties()\<close> of the struct projections: it
  leaves at the projected field (the stored property number \<open>field\<close>, counted by \<open>index\<close>)
  and adds the count of every property before it.
\<close>

fun addStoredPropertiesBefore :: "SILType list \<Rightarrow> nat \<Rightarrow> nat \<Rightarrow> 32 word \<Rightarrow> 32 word" where
  "addStoredPropertiesBefore [] index field finalSubElementOffset = finalSubElementOffset"
| "addStoredPropertiesBefore (fieldTy # rest) index field finalSubElementOffset =
     (if index = field then finalSubElementOffset
      else addStoredPropertiesBefore rest (Suc index) field
             (finalSubElementOffset + TypeSubElementCount fieldTy))"

text \<open>
  One turn of the \<^verbatim>\<open>while (1)\<close> loop after the test for the root: go on with an operand
  and an offset, or return \<^verbatim>\<open>llvm::None\<close>, or stop in an accessor's assertion.
\<close>

datatype walk = LookThrough SILValue "32 word" | ReturnNone | Stop error

definition tupleProjection :: "SILValue \<Rightarrow> nat \<Rightarrow> 32 word \<Rightarrow> walk" where
  "tupleProjection operand fieldIndex finalSubElementOffset =
     (case addTupleElementsBefore (getType operand) [0..<fieldIndex] finalSubElementOffset of
        Inl e \<Rightarrow> Stop e
      | Inr off \<Rightarrow> LookThrough operand off)"

definition structProjection :: "SILValue \<Rightarrow> nat \<Rightarrow> 32 word \<Rightarrow> walk" where
  "structProjection operand field finalSubElementOffset =
     (case getStoredProperties (getType operand) of
        Inl e \<Rightarrow> Stop e
      | Inr fields \<Rightarrow>
          LookThrough operand (addStoredPropertiesBefore fields 0 field finalSubElementOffset))"

text \<open>The body of the loop of \<^verbatim>\<open>computeForAddress\<close> (lines 122-205).\<close>

fun addressStep :: "32 word \<Rightarrow> SILValue \<Rightarrow> walk" where
  "addressStep off (ProjectBoxInst i ty v) = LookThrough v off"
| "addressStep off (BeginAccessInst i ty v) = LookThrough v off"
| "addressStep off (StoreBorrowInst i ty src dest) = LookThrough dest off"
| "addressStep off (MoveOnlyWrapperToCopyableAddrInst i ty v) = LookThrough v off"
| "addressStep off (TupleElementAddrInst i ty v fieldIndex) = tupleProjection v fieldIndex off"
| "addressStep off (StructElementAddrInst i ty v field) = structProjection v field off"
| "addressStep off (UncheckedTakeEnumDataAddrInst i ty v) = LookThrough v off"
| "addressStep off (InitEnumDataAddrInst i ty v) = LookThrough v off"
| "addressStep off v = ReturnNone"

text \<open>The body of the loop of \<^verbatim>\<open>computeForValue\<close> (lines 220-319).\<close>

fun valueStep :: "32 word \<Rightarrow> SILValue \<Rightarrow> walk" where
  "valueStep off (BeginBorrowInst i ty v) = LookThrough v off"
| "valueStep off (CopyValueInst i ty v) = LookThrough v off"
| "valueStep off (MoveOnlyWrapperToCopyableValueInst i ty v) = LookThrough v off"
| "valueStep off (TupleExtractInst i ty v fieldIndex) = tupleProjection v fieldIndex off"
| "valueStep off (DestructureStructResult i ty v resultIndex) = structProjection v resultIndex off"
| "valueStep off (DestructureTupleResult i ty v resultIndex) = tupleProjection v resultIndex off"
| "valueStep off (StructExtractInst i ty v field) = structProjection v field off"
| "valueStep off (UncheckedEnumDataInst i ty v) = LookThrough v off"
| "valueStep off v = ReturnNone"

lemma addressStep_smaller: "addressStep off p = LookThrough v off' \<Longrightarrow> size v < size p"
  by (cases p)
     (auto simp: tupleProjection_def structProjection_def split: sum.splits)

lemma valueStep_smaller: "valueStep off p = LookThrough v off' \<Longrightarrow> size v < size p"
  by (cases p)
     (auto simp: tupleProjection_def structProjection_def split: sum.splits)

text \<open>
  The two walks from the projection back to the root. \<open>Inr (Some off)\<close> is the offset,
  \<open>Inr None\<close> is \<^verbatim>\<open>llvm::None\<close>.
\<close>

function computeForAddress_loop ::
  "32 word \<Rightarrow> SILValue \<Rightarrow> SILValue \<Rightarrow> error + 32 word option" where
  "computeForAddress_loop finalSubElementOffset projectionDerivedFromRoot rootAddress =
     (if rootAddress = projectionDerivedFromRoot then Inr (Some finalSubElementOffset)
      else case addressStep finalSubElementOffset projectionDerivedFromRoot of
             LookThrough operand off \<Rightarrow> computeForAddress_loop off operand rootAddress
           | ReturnNone \<Rightarrow> Inr None
           | Stop e \<Rightarrow> Inl e)"
  by pat_completeness auto
termination
  by (relation "measure (\<lambda>(off, p, root). size p)") (auto dest: addressStep_smaller)

function computeForValue_loop ::
  "32 word \<Rightarrow> SILValue \<Rightarrow> SILValue \<Rightarrow> error + 32 word option" where
  "computeForValue_loop finalSubElementOffset projectionDerivedFromRoot rootAddress =
     (if rootAddress = projectionDerivedFromRoot then Inr (Some finalSubElementOffset)
      else case valueStep finalSubElementOffset projectionDerivedFromRoot of
             LookThrough operand off \<Rightarrow> computeForValue_loop off operand rootAddress
           | ReturnNone \<Rightarrow> Inr None
           | Stop e \<Rightarrow> Inl e)"
  by pat_completeness auto
termination
  by (relation "measure (\<lambda>(off, p, root). size p)") (auto dest: valueStep_smaller)

definition computeForAddress :: "SILValue \<Rightarrow> SILValue \<Rightarrow> error + 32 word option" where
  "computeForAddress projectionDerivedFromRoot rootAddress =
     computeForAddress_loop 0 projectionDerivedFromRoot rootAddress"

definition computeForValue :: "SILValue \<Rightarrow> SILValue \<Rightarrow> error + 32 word option" where
  "computeForValue projectionDerivedFromRoot rootAddress =
     computeForValue_loop 0 projectionDerivedFromRoot rootAddress"

text \<open>
  What the SIL verifier guarantees of the operands of the projections: a tuple projection
  projects an existing element of a tuple, a struct projection an existing stored
  property of a struct.
\<close>

fun isTupleWithElement :: "SILType \<Rightarrow> nat \<Rightarrow> bool" where
  "isTupleWithElement (TupleType elts) i = (i < length elts)"
| "isTupleWithElement ty i = False"

fun isStructWithField :: "SILType \<Rightarrow> nat \<Rightarrow> bool" where
  "isStructWithField (StructType unreferenceable deinit fields) i = (i < length fields)"
| "isStructWithField ty i = False"

fun verified :: "SILValue \<Rightarrow> bool" where
  "verified (OtherValue i ty) = True"
| "verified (ProjectBoxInst i ty v) = verified v"
| "verified (BeginAccessInst i ty v) = verified v"
| "verified (StoreBorrowInst i ty src dest) = (verified src \<and> verified dest)"
| "verified (MoveOnlyWrapperToCopyableAddrInst i ty v) = verified v"
| "verified (TupleElementAddrInst i ty v n) = (isTupleWithElement (getType v) n \<and> verified v)"
| "verified (StructElementAddrInst i ty v n) = (isStructWithField (getType v) n \<and> verified v)"
| "verified (UncheckedTakeEnumDataAddrInst i ty v) = verified v"
| "verified (InitEnumDataAddrInst i ty v) = verified v"
| "verified (BeginBorrowInst i ty v) = verified v"
| "verified (CopyValueInst i ty v) = verified v"
| "verified (MoveOnlyWrapperToCopyableValueInst i ty v) = verified v"
| "verified (TupleExtractInst i ty v n) = (isTupleWithElement (getType v) n \<and> verified v)"
| "verified (DestructureStructResult i ty v n) = (isStructWithField (getType v) n \<and> verified v)"
| "verified (DestructureTupleResult i ty v n) = (isTupleWithElement (getType v) n \<and> verified v)"
| "verified (StructExtractInst i ty v n) = (isStructWithField (getType v) n \<and> verified v)"
| "verified (UncheckedEnumDataInst i ty v) = verified v"

text \<open>
  The values a walk passes on its way down the operands when no root stops it: the
  projection, then the operand of every value of a kind the walk looks through, up to the
  first value of another kind.
\<close>

function addressChain :: "SILValue \<Rightarrow> SILValue list" where
  "addressChain p =
     p # (case addressStep 0 p of LookThrough operand off \<Rightarrow> addressChain operand | _ \<Rightarrow> [])"
  by pat_completeness auto
termination
  by (relation "measure size") (auto dest: addressStep_smaller)

function valueChain :: "SILValue \<Rightarrow> SILValue list" where
  "valueChain p =
     p # (case valueStep 0 p of LookThrough operand off \<Rightarrow> valueChain operand | _ \<Rightarrow> [])"
  by pat_completeness auto
termination
  by (relation "measure size") (auto dest: valueStep_smaller)

subsection \<open>Leaf ranges and the runs of a bit vector\<close>

text \<open>
  Modelled from the spec: \<^verbatim>\<open>TypeTreeLeafTypeRange\<close>, declared in the header
  \<^verbatim>\<open>swift/SIL/FieldSensitivePrunedLiveness.h\<close>, which is not among the sources: the leaf
  range of section 3 of the specification, the half-open range of leaf bits from
  \<open>startEltOffset\<close> to \<open>endEltOffset\<close>, with its two-argument constructor.
\<close>

record TypeTreeLeafTypeRange =
  startEltOffset :: nat
  endEltOffset :: nat

definition TypeTreeLeafTypeRange :: "nat \<Rightarrow> nat \<Rightarrow> TypeTreeLeafTypeRange" where
  "TypeTreeLeafTypeRange start finish = \<lparr>startEltOffset = start, endEltOffset = finish\<rparr>"

text \<open>
  Modelled from the spec: \<^verbatim>\<open>TypeTreeLeafTypeRange::contains\<close>, declared in the same
  header: a bit is in the half-open range.
\<close>

definition contains :: "TypeTreeLeafTypeRange \<Rightarrow> nat \<Rightarrow> bool" where
  "contains span bitNo \<longleftrightarrow> startEltOffset span \<le> bitNo \<and> bitNo < endEltOffset span"

text \<open>
  \<^verbatim>\<open>TypeTreeLeafTypeRange::visitContiguousRanges\<close> (lines 483-504). The callback returns
  nothing, so what the function does is the list of the ranges it passes to the callback,
  in the order of the calls. \<open>current\<close> is the \<^verbatim>\<open>llvm::Optional<unsigned>\<close> of the loop; the
  last branch is the test after the loop.
\<close>

function visitContiguousRanges_loop ::
  "bool list \<Rightarrow> nat \<Rightarrow> nat option \<Rightarrow> TypeTreeLeafTypeRange list" where
  "visitContiguousRanges_loop bits bitNo current =
     (if bitNo < length bits then
        (let isSet = bits ! bitNo in
         case current of
           Some start \<Rightarrow>
             if \<not> isSet
             then TypeTreeLeafTypeRange start bitNo # visitContiguousRanges_loop bits (Suc bitNo) None
             else visitContiguousRanges_loop bits (Suc bitNo) current
         | None \<Rightarrow>
             if isSet then visitContiguousRanges_loop bits (Suc bitNo) (Some bitNo)
             else visitContiguousRanges_loop bits (Suc bitNo) current)
      else (case current of
              Some start \<Rightarrow> [TypeTreeLeafTypeRange start (length bits)]
            | None \<Rightarrow> []))"
  by pat_completeness auto
termination
  by (relation "measure (\<lambda>(bits, bitNo, current). length bits - bitNo)") auto

definition visitContiguousRanges :: "bool list \<Rightarrow> TypeTreeLeafTypeRange list" where
  "visitContiguousRanges bits =
     (if length bits = 0 then [] else visitContiguousRanges_loop bits 0 None)"

text \<open>
  A maximal contiguous run of set bits of a vector: the half-open range \<open>[s, e)\<close> is not
  empty, lies in the vector, holds set bits only, and the bits next to it on either side,
  where the vector has them, are clear.
\<close>

definition maximalRun :: "bool list \<Rightarrow> nat \<Rightarrow> nat \<Rightarrow> bool" where
  "maximalRun bits s e \<longleftrightarrow>
     s < e \<and> e \<le> length bits \<and> (\<forall>i \<in> {s..<e}. bits ! i) \<and>
     (s = 0 \<or> \<not> bits ! (s - 1)) \<and> (e = length bits \<or> \<not> bits ! e)"

subsection \<open>Control-flow graph\<close>

text \<open>
  Modelled from the spec: \<^verbatim>\<open>SILFunction\<close>, \<^verbatim>\<open>SILBasicBlock\<close>, \<^verbatim>\<open>SILInstruction\<close>,
  \<^verbatim>\<open>SILArgument\<close> and \<^verbatim>\<open>SILNode\<close>, declared in headers that are not among the sources:
  the control-flow graph of section 6 of the specification, with the ordered instructions
  and the arguments of every block and its predecessors and successors. A basic block is
  a number; an instruction
  is its parent block and its position in the block, an argument its block and its index,
  so that \<^verbatim>\<open>getParent\<close> and \<^verbatim>\<open>getPreviousInstruction\<close> need no table. The function gives
  the number of instructions and of arguments of every block and the list of the
  control-flow edges (predecessor, successor); an edge may occur twice, as the two
  targets of a \<^verbatim>\<open>cond_br\<close> may be the same block.
\<close>

type_synonym SILBasicBlock = nat

datatype SILInstruction = SILInstruction SILBasicBlock nat

datatype SILArgument = SILArgument SILBasicBlock nat

datatype SILNode = InstructionNode SILInstruction | ArgumentNode SILArgument

record SILFunction =
  numInstructions :: "SILBasicBlock \<Rightarrow> nat"
  numArguments :: "SILBasicBlock \<Rightarrow> nat"
  edges :: "(SILBasicBlock \<times> SILBasicBlock) list"

text \<open>
  Modelled from the spec: the accessors of the control-flow graph (section 6 of the
  specification), declared in the same headers: the parent block of an instruction and of
  a node, the instruction before an instruction in its block (none before the first), and
  the instructions, arguments, predecessors and successors of a block in their order.
\<close>

fun getParent :: "SILInstruction \<Rightarrow> SILBasicBlock" where
  "getParent (SILInstruction block position) = block"

fun getPosition :: "SILInstruction \<Rightarrow> nat" where
  "getPosition (SILInstruction block position) = position"

fun getPreviousInstruction :: "SILInstruction \<Rightarrow> SILInstruction option" where
  "getPreviousInstruction (SILInstruction block 0) = None"
| "getPreviousInstruction (SILInstruction block (Suc position)) =
     Some (SILInstruction block position)"

fun getParentBlock :: "SILNode \<Rightarrow> SILBasicBlock" where
  "getParentBlock (InstructionNode (SILInstruction block position)) = block"
| "getParentBlock (ArgumentNode (SILArgument block index)) = block"

definition getInstructions :: "SILFunction \<Rightarrow> SILBasicBlock \<Rightarrow> SILInstruction list" where
  "getInstructions fn block = map (SILInstruction block) [0..<numInstructions fn block]"

definition getArguments :: "SILFunction \<Rightarrow> SILBasicBlock \<Rightarrow> SILArgument list" where
  "getArguments fn block = map (SILArgument block) [0..<numArguments fn block]"

definition getPredecessorBlocks :: "SILFunction \<Rightarrow> SILBasicBlock \<Rightarrow> SILBasicBlock list" where
  "getPredecessorBlocks fn block = map fst (filter (\<lambda>edge. snd edge = block) (edges fn))"

definition getSuccessors :: "SILFunction \<Rightarrow> SILBasicBlock \<Rightarrow> SILBasicBlock list" where
  "getSuccessors fn block = map snd (filter (\<lambda>edge. fst edge = block) (edges fn))"

subsection \<open>The worklist of basic blocks\<close>

text \<open>
  Modelled from the spec: \<^verbatim>\<open>BasicBlockWorklist\<close> of
  \<^verbatim>\<open>swift/SIL/BasicBlockDatastructures.h\<close>, which is not among the sources. The
  specification asks for an explicit worklist with a marker for the blocks pushed so far
  (its section 9): a list of blocks to visit and the set of the blocks ever pushed.
  Whether a pushed block goes to the front of the list (a stack) or to its back (a queue,
  the breadth-first search of section 4.4) is the parameter \<open>WorklistOrder\<close> of everything
  that uses the worklist. \<^verbatim>\<open>BasicBlockWorklist\<close> keeps the blocks in a vector, pushes at
  its back and pops from its back, so that the block pushed last is taken first: that is
  the order \<open>Stack\<close>. The order \<open>Queue\<close> is kept for the comparison with the words of
  the specification.
\<close>

datatype WorklistOrder = Stack | Queue

record BasicBlockWorklist =
  worklist :: "SILBasicBlock list"
  visited :: "SILBasicBlock set"

text \<open>
  Modelled from the spec: the operations of \<^verbatim>\<open>BasicBlockWorklist\<close>. A new worklist is
  empty with no block marked; \<open>push\<close> enters a block and marks it; \<open>pushIfNotVisited\<close>
  enters a block unless it is marked; \<open>pop\<close> takes the head of the list, and gives nothing
  when the list is empty, which ends the \<^verbatim>\<open>while\<close> loops.
\<close>

definition emptyWorklist :: BasicBlockWorklist where
  "emptyWorklist = \<lparr>worklist = [], visited = {}\<rparr>"

definition push :: "WorklistOrder \<Rightarrow> BasicBlockWorklist \<Rightarrow> SILBasicBlock \<Rightarrow> BasicBlockWorklist" where
  "push order w block =
     \<lparr>worklist = (case order of Stack \<Rightarrow> block # worklist w | Queue \<Rightarrow> worklist w @ [block]),
      visited = insert block (visited w)\<rparr>"

definition pushIfNotVisited ::
  "WorklistOrder \<Rightarrow> BasicBlockWorklist \<Rightarrow> SILBasicBlock \<Rightarrow> BasicBlockWorklist" where
  "pushIfNotVisited order w block = (if block \<in> visited w then w else push order w block)"

fun pop :: "BasicBlockWorklist \<Rightarrow> (SILBasicBlock \<times> BasicBlockWorklist) option" where
  "pop w =
     (case worklist w of
        [] \<Rightarrow> None
      | block # rest \<Rightarrow> Some (block, w\<lparr>worklist := rest\<rparr>))"

subsection \<open>Block liveness\<close>

datatype IsLive = Dead | LiveWithin | LiveOut

text \<open>The order \<open>Dead < LiveWithin < LiveOut\<close> of the specification.\<close>

fun rank :: "IsLive \<Rightarrow> nat" where
  "rank Dead = 0"
| "rank LiveWithin = 1"
| "rank LiveOut = 2"

text \<open>
  Modelled from the spec: the state of \<^verbatim>\<open>FieldSensitivePrunedLiveBlocks\<close> and its
  accessors \<^verbatim>\<open>isInitialized\<close>, \<^verbatim>\<open>getBlockLiveness\<close> and \<^verbatim>\<open>markBlockLive\<close>, declared in
  \<^verbatim>\<open>swift/SIL/FieldSensitivePrunedLiveness.h\<close>, which is not among the sources. The
  specification has a mapping from block and leaf bit to the three states, \<open>Dead\<close> for
  every pair not yet touched (sections 3 and 9), the number of bits tracked, and the list
  of discovered blocks in the order of their first visit (section 5). Marking a block
  sets its state for the bit to at least the given state and never lowers it (section
  4.2, steps 2 and 3).
\<close>

record FieldSensitivePrunedLiveBlocks =
  numBitsToTrack :: "nat option"
  blockLiveness :: "SILBasicBlock \<Rightarrow> nat \<Rightarrow> IsLive"
  discoveredBlocks :: "SILBasicBlock list"

text \<open>
  Modelled from the spec: \<^verbatim>\<open>isInitialized\<close>, \<^verbatim>\<open>getBlockLiveness\<close> for one bit and for a
  range of bits, of the same header: the state tracks a number of bits; a pair of block
  and bit has the state the mapping gives it.
\<close>

definition isInitialized :: "FieldSensitivePrunedLiveBlocks \<Rightarrow> bool" where
  "isInitialized s \<longleftrightarrow> numBitsToTrack s \<noteq> None"

definition getBlockLiveness :: "FieldSensitivePrunedLiveBlocks \<Rightarrow> SILBasicBlock \<Rightarrow> nat \<Rightarrow> IsLive" where
  "getBlockLiveness s bb bitNo = blockLiveness s bb bitNo"

definition getBlockLivenessRange ::
  "FieldSensitivePrunedLiveBlocks \<Rightarrow> SILBasicBlock \<Rightarrow> nat \<Rightarrow> nat \<Rightarrow> IsLive list" where
  "getBlockLivenessRange s bb startBitNo endBitNo =
     map (getBlockLiveness s bb) [startBitNo..<endBitNo]"

text \<open>
  Modelled from the spec: \<^verbatim>\<open>markBlockLive\<close>, of the same header. The state of the block
  for the bit becomes at least the given state and is never lowered (section 4.2 of the
  specification: "set block's state for bit to at least LiveWithin", "never regresses");
  a block marked for the first time joins the discovered blocks.
\<close>

fun promote :: "IsLive \<Rightarrow> IsLive \<Rightarrow> IsLive" where
  "promote Dead isLive = isLive"
| "promote LiveWithin isLive = (if isLive = LiveOut then LiveOut else LiveWithin)"
| "promote LiveOut isLive = LiveOut"

definition markBlockLive ::
  "FieldSensitivePrunedLiveBlocks \<Rightarrow> SILBasicBlock \<Rightarrow> nat \<Rightarrow> IsLive \<Rightarrow> FieldSensitivePrunedLiveBlocks" where
  "markBlockLive s bb bitNo isLive =
     s\<lparr>blockLiveness :=
          (blockLiveness s)(bb := (blockLiveness s bb)(bitNo := promote (blockLiveness s bb bitNo) isLive)),
        discoveredBlocks :=
          (if bb \<in> set (discoveredBlocks s) then discoveredBlocks s else discoveredBlocks s @ [bb])\<rparr>"

text \<open>
  \<^verbatim>\<open>FieldSensitivePrunedLiveBlocks::computeScalarUseBlockLiveness\<close> (lines 510-537):
  the \<^verbatim>\<open>switch\<close> on the liveness of one predecessor, the \<^verbatim>\<open>for\<close> loop over the
  predecessors of the popped block as a \<open>fold\<close>, and the \<^verbatim>\<open>while\<close> loop over the worklist.
\<close>

fun visitPredecessor ::
  "WorklistOrder \<Rightarrow> nat \<Rightarrow> SILBasicBlock \<Rightarrow>
   BasicBlockWorklist \<times> FieldSensitivePrunedLiveBlocks \<Rightarrow>
   BasicBlockWorklist \<times> FieldSensitivePrunedLiveBlocks" where
  "visitPredecessor order bitNo predBlock (w, s) =
     (case getBlockLiveness s predBlock bitNo of
        Dead \<Rightarrow> (pushIfNotVisited order w predBlock, markBlockLive s predBlock bitNo LiveOut)
      | LiveWithin \<Rightarrow> (w, markBlockLive s predBlock bitNo LiveOut)
      | LiveOut \<Rightarrow> (w, s))"

lemma visitPredecessors_visited:
  "fold (visitPredecessor order bitNo) preds (w, s) = (w', s') \<Longrightarrow>
   visited w \<subseteq> visited w' \<and> visited w' \<subseteq> visited w \<union> set preds \<and>
   (visited w' = visited w \<longrightarrow> worklist w' = worklist w)"
proof (induction preds arbitrary: w s)
  case Nil
  then show ?case by simp
next
  case (Cons p preds)
  obtain w1 s1 where step: "visitPredecessor order bitNo p (w, s) = (w1, s1)"
    by (cases "visitPredecessor order bitNo p (w, s)")
  have one: "visited w \<subseteq> visited w1 \<and> visited w1 \<subseteq> insert p (visited w) \<and>
      (visited w1 = visited w \<longrightarrow> worklist w1 = worklist w)"
    using step by (auto simp: pushIfNotVisited_def push_def split: IsLive.splits if_splits)
  from Cons.prems step have "fold (visitPredecessor order bitNo) preds (w1, s1) = (w', s')"
    by simp
  from Cons.IH [OF this] one show ?case by auto
qed

lemma getPredecessorBlocks_edges: "set (getPredecessorBlocks fn block) \<subseteq> fst ` set (edges fn)"
  by (auto simp: getPredecessorBlocks_def)

lemma computeScalarUseBlockLiveness_loop_decreases:
  assumes "pop w = Some (block, w1)"
    and "fold (visitPredecessor order bitNo) (getPredecessorBlocks fn block) (w1, s) = (w2, s2)"
  shows "card (fst ` set (edges fn) - visited w2) < card (fst ` set (edges fn) - visited w) \<or>
     (card (fst ` set (edges fn) - visited w2) = card (fst ` set (edges fn) - visited w) \<and>
      length (worklist w2) < length (worklist w))"
proof -
  from assms(1) have w1: "visited w1 = visited w" "length (worklist w1) < length (worklist w)"
    by (auto split: list.splits)
  from visitPredecessors_visited [OF assms(2)] getPredecessorBlocks_edges [of fn block]
  have sub: "visited w1 \<subseteq> visited w2" "visited w2 \<subseteq> visited w1 \<union> fst ` set (edges fn)"
    and same: "visited w2 = visited w1 \<longrightarrow> worklist w2 = worklist w1" by auto
  show ?thesis
  proof (cases "visited w2 = visited w1")
    case True
    then show ?thesis using same w1 by simp
  next
    case False
    have "fst ` set (edges fn) - visited w2 \<subset> fst ` set (edges fn) - visited w1"
      using sub False by auto
    then have "card (fst ` set (edges fn) - visited w2) < card (fst ` set (edges fn) - visited w1)"
      by (intro psubset_card_mono) auto
    then show ?thesis using w1 by simp
  qed
qed

function computeScalarUseBlockLiveness_loop ::
  "SILFunction \<Rightarrow> WorklistOrder \<Rightarrow> nat \<Rightarrow> BasicBlockWorklist \<Rightarrow>
   FieldSensitivePrunedLiveBlocks \<Rightarrow> FieldSensitivePrunedLiveBlocks" where
  "computeScalarUseBlockLiveness_loop fn order bitNo w s =
     (case pop w of
        None \<Rightarrow> s
      | Some (block, w1) \<Rightarrow>
          (case fold (visitPredecessor order bitNo) (getPredecessorBlocks fn block) (w1, s) of
             (w2, s2) \<Rightarrow> computeScalarUseBlockLiveness_loop fn order bitNo w2 s2))"
  by pat_completeness auto
termination
proof (relation "measures
    [\<lambda>(fn, order, bitNo, w, s). card (fst ` set (edges fn) - visited w),
     \<lambda>(fn, order, bitNo, w, s). length (worklist w)]", goal_cases)
  case 1
  show ?case by simp
next
  case (2 fn order bitNo w s popped block w1 w2 s2)
  have a: "pop w = Some (block, w1)" using 2(1,2) by (simp del: pop.simps)
  have b: "fold (visitPredecessor order bitNo) (getPredecessorBlocks fn block) (w1, s) = (w2, s2)"
    using 2(3) by simp
  from computeScalarUseBlockLiveness_loop_decreases [OF a b] show ?case by simp
qed

definition computeScalarUseBlockLiveness ::
  "SILFunction \<Rightarrow> WorklistOrder \<Rightarrow> FieldSensitivePrunedLiveBlocks \<Rightarrow> SILBasicBlock \<Rightarrow> nat \<Rightarrow>
   FieldSensitivePrunedLiveBlocks" where
  "computeScalarUseBlockLiveness fn order s userBB bitNo =
     computeScalarUseBlockLiveness_loop fn order bitNo (push order emptyWorklist userBB)
       (markBlockLive s userBB bitNo LiveWithin)"

text \<open>
  \<^verbatim>\<open>FieldSensitivePrunedLiveBlocks::updateForUse\<close> (lines 544-578). The loop runs over
  the indices of \<open>resultingLivenessInfo\<close>, which holds the liveness read before the loop;
  \<open>useBeforeDefBits\<close> is the bit vector as a predicate on bit numbers. The second
  assertion compares the length of the vector with an \<^verbatim>\<open>unsigned\<close> difference, which wraps
  when the end of the range is below its start.
\<close>

fun updateForUse_loop ::
  "SILFunction \<Rightarrow> WorklistOrder \<Rightarrow> SILBasicBlock \<Rightarrow> nat \<Rightarrow> (nat \<Rightarrow> bool) \<Rightarrow> nat list \<Rightarrow>
   FieldSensitivePrunedLiveBlocks \<times> IsLive list \<Rightarrow>
   FieldSensitivePrunedLiveBlocks \<times> IsLive list" where
  "updateForUse_loop fn order bb startBitNo useBeforeDefBits [] (s, resultingLivenessInfo) =
     (s, resultingLivenessInfo)"
| "updateForUse_loop fn order bb startBitNo useBeforeDefBits (index # rest)
     (s, resultingLivenessInfo) =
     (let specificBitNo = startBitNo + index;
          isUseBeforeDef = useBeforeDefBits specificBitNo
      in if resultingLivenessInfo ! index \<noteq> Dead \<and> \<not> isUseBeforeDef
         then updateForUse_loop fn order bb startBitNo useBeforeDefBits rest
                (s, resultingLivenessInfo)
         else let s1 = computeScalarUseBlockLiveness fn order s bb specificBitNo
              in updateForUse_loop fn order bb startBitNo useBeforeDefBits rest
                   (s1, resultingLivenessInfo[index := getBlockLiveness s1 bb specificBitNo]))"

definition unsignedDifference :: "nat \<Rightarrow> nat \<Rightarrow> nat" where
  "unsignedDifference endBitNo startBitNo =
     (if startBitNo \<le> endBitNo then endBitNo - startBitNo
      else 2 ^ 32 + endBitNo - startBitNo)"

definition liveBlocks_updateForUse ::
  "SILFunction \<Rightarrow> WorklistOrder \<Rightarrow> FieldSensitivePrunedLiveBlocks \<Rightarrow> SILInstruction \<Rightarrow>
   nat \<Rightarrow> nat \<Rightarrow> (nat \<Rightarrow> bool) \<Rightarrow> error + FieldSensitivePrunedLiveBlocks \<times> IsLive list" where
  "liveBlocks_updateForUse fn order s user startBitNo endBitNo useBeforeDefBits =
     (if \<not> isInitialized s then Inl AssertionFailed
      else let bb = getParent user;
               resultingLivenessInfo = getBlockLivenessRange s bb startBitNo endBitNo
           in if length resultingLivenessInfo \<noteq> unsignedDifference endBitNo startBitNo
              then Inl AssertionFailed
              else Inr (updateForUse_loop fn order bb startBitNo useBeforeDefBits
                         [0..<length resultingLivenessInfo] (s, resultingLivenessInfo)))"

subsection \<open>The liveness tracker\<close>

text \<open>
  Modelled from the spec: the state of \<^verbatim>\<open>FieldSensitivePrunedLiveness\<close> and its query
  \<^verbatim>\<open>isInterestingUser\<close>, declared in \<^verbatim>\<open>swift/SIL/FieldSensitivePrunedLiveness.h\<close>, which is
  not among the sources. The tracker holds the block liveness and, for every instruction
  and bit, how the instruction uses the bit (section 4.3 of the specification): not as a
  use that counts, as a use that does not end the lifetime, or as a lifetime-ending use.
  The C++ tests the result of the query as a condition in the boundary searches and
  compares it with \<^verbatim>\<open>LifetimeEndingUse\<close> in \<^verbatim>\<open>findEarlierConsumingUse\<close>; as a condition it
  holds for every result but \<open>NonUser\<close>.
\<close>

datatype IsInterestingUser = NonUser | NonLifetimeEndingUse | LifetimeEndingUse

record FieldSensitivePrunedLiveness =
  liveBlocks :: FieldSensitivePrunedLiveBlocks
  users :: "SILInstruction \<Rightarrow> nat \<Rightarrow> IsInterestingUser"

text \<open>
  Modelled from the spec: \<^verbatim>\<open>isInterestingUser\<close>, of the same header: the recorded kind
  of use of the bit by the instruction.
\<close>

definition isInterestingUser ::
  "'a FieldSensitivePrunedLiveness_scheme \<Rightarrow> SILInstruction \<Rightarrow> nat \<Rightarrow> IsInterestingUser" where
  "isInterestingUser liveness user element = users liveness user element"

text \<open>
  \<^verbatim>\<open>FieldSensitivePrunedLiveness::updateForUse\<close> and \<^verbatim>\<open>extendToNonUse\<close> on a range (lines
  646-654 and 666-674): both update the block liveness for the bits of the range and
  then record the user. The two recording functions, \<^verbatim>\<open>addInterestingUser\<close> and the
  two-argument \<^verbatim>\<open>extendToNonUse\<close>, are declared in the header; they are the parameters
  \<open>addInterestingUser\<close> and \<open>recordNonUse\<close>, functions on the record of users.
\<close>

type_synonym Users = "SILInstruction \<Rightarrow> nat \<Rightarrow> IsInterestingUser"

definition liveness_updateForUse ::
  "(SILInstruction \<Rightarrow> TypeTreeLeafTypeRange \<Rightarrow> bool \<Rightarrow> Users \<Rightarrow> Users) \<Rightarrow>
   SILFunction \<Rightarrow> WorklistOrder \<Rightarrow> FieldSensitivePrunedLiveness \<Rightarrow> SILInstruction \<Rightarrow>
   TypeTreeLeafTypeRange \<Rightarrow> bool \<Rightarrow> (nat \<Rightarrow> bool) \<Rightarrow> error + FieldSensitivePrunedLiveness" where
  "liveness_updateForUse addInterestingUser fn order liveness user span lifetimeEnding
     useBeforeDefBits =
     (case liveBlocks_updateForUse fn order (liveBlocks liveness) user
             (startEltOffset span) (endEltOffset span) useBeforeDefBits of
        Inl e \<Rightarrow> Inl e
      | Inr (s, resultingLiveness) \<Rightarrow>
          Inr \<lparr>liveBlocks = s,
               users = addInterestingUser user span lifetimeEnding (users liveness)\<rparr>)"

definition liveness_extendToNonUse ::
  "(SILInstruction \<Rightarrow> TypeTreeLeafTypeRange \<Rightarrow> Users \<Rightarrow> Users) \<Rightarrow>
   SILFunction \<Rightarrow> WorklistOrder \<Rightarrow> FieldSensitivePrunedLiveness \<Rightarrow> SILInstruction \<Rightarrow>
   TypeTreeLeafTypeRange \<Rightarrow> (nat \<Rightarrow> bool) \<Rightarrow> error + FieldSensitivePrunedLiveness" where
  "liveness_extendToNonUse recordNonUse fn order liveness user span useBeforeDefBits =
     (case liveBlocks_updateForUse fn order (liveBlocks liveness) user
             (startEltOffset span) (endEltOffset span) useBeforeDefBits of
        Inl e \<Rightarrow> Inl e
      | Inr (s, resultingLiveness) \<Rightarrow>
          Inr \<lparr>liveBlocks = s, users = recordNonUse user span (users liveness)\<rparr>)"

text \<open>
  One analysis is a sequence of such calls on one tracker; a call that stops in an
  assertion stops the analysis.
\<close>

datatype LivenessCall =
    UpdateForUse SILInstruction TypeTreeLeafTypeRange bool "nat \<Rightarrow> bool"
  | ExtendToNonUse SILInstruction TypeTreeLeafTypeRange "nat \<Rightarrow> bool"

fun applyCall ::
  "(SILInstruction \<Rightarrow> TypeTreeLeafTypeRange \<Rightarrow> bool \<Rightarrow> Users \<Rightarrow> Users) \<Rightarrow>
   (SILInstruction \<Rightarrow> TypeTreeLeafTypeRange \<Rightarrow> Users \<Rightarrow> Users) \<Rightarrow>
   SILFunction \<Rightarrow> WorklistOrder \<Rightarrow> FieldSensitivePrunedLiveness \<Rightarrow> LivenessCall \<Rightarrow>
   error + FieldSensitivePrunedLiveness" where
  "applyCall addInterestingUser recordNonUse fn order liveness
     (UpdateForUse user span lifetimeEnding useBeforeDefBits) =
     liveness_updateForUse addInterestingUser fn order liveness user span lifetimeEnding
       useBeforeDefBits"
| "applyCall addInterestingUser recordNonUse fn order liveness
     (ExtendToNonUse user span useBeforeDefBits) =
     liveness_extendToNonUse recordNonUse fn order liveness user span useBeforeDefBits"

fun applyCalls ::
  "(SILInstruction \<Rightarrow> TypeTreeLeafTypeRange \<Rightarrow> bool \<Rightarrow> Users \<Rightarrow> Users) \<Rightarrow>
   (SILInstruction \<Rightarrow> TypeTreeLeafTypeRange \<Rightarrow> Users \<Rightarrow> Users) \<Rightarrow>
   SILFunction \<Rightarrow> WorklistOrder \<Rightarrow> FieldSensitivePrunedLiveness \<Rightarrow> LivenessCall list \<Rightarrow>
   error + FieldSensitivePrunedLiveness" where
  "applyCalls addInterestingUser recordNonUse fn order liveness [] = Inr liveness"
| "applyCalls addInterestingUser recordNonUse fn order liveness (call # calls) =
     (case applyCall addInterestingUser recordNonUse fn order liveness call of
        Inl e \<Rightarrow> Inl e
      | Inr liveness1 \<Rightarrow> applyCalls addInterestingUser recordNonUse fn order liveness1 calls)"

text \<open>The range of a call, and what it means to have the end not below the start.\<close>

fun callRange :: "LivenessCall \<Rightarrow> TypeTreeLeafTypeRange" where
  "callRange (UpdateForUse user span lifetimeEnding useBeforeDefBits) = span"
| "callRange (ExtendToNonUse user span useBeforeDefBits) = span"

definition wellFormedRange :: "TypeTreeLeafTypeRange \<Rightarrow> bool" where
  "wellFormedRange span \<longleftrightarrow> startEltOffset span \<le> endEltOffset span"

subsection \<open>The liveness boundary\<close>

text \<open>
  Modelled from the spec: \<^verbatim>\<open>FieldSensitivePrunedLivenessBoundary\<close> and its accessors
  \<^verbatim>\<open>getLastUserBits\<close>, \<^verbatim>\<open>getDeadDefsBits\<close>, \<^verbatim>\<open>getBoundaryEdgeBits\<close> and
  \<^verbatim>\<open>getNumLastUsersAndDeadDefs\<close>, declared in the header that is not among the sources.
  The specification has three maps to sets of bits (section 3): from the last users, from
  the successor blocks of the boundary edges and from the dead definitions. A map is the
  list of its entries in the order of insertion, as \<^verbatim>\<open>print\<close> (lines 614-636) walks them.
  An accessor finds the entry of a key or adds an empty one, and the caller sets a bit in
  it; \<^verbatim>\<open>getNumLastUsersAndDeadDefs\<close> counts the last users and the dead definitions that
  have the bit.
\<close>

record FieldSensitivePrunedLivenessBoundary =
  lastUsers :: "(SILInstruction \<times> nat set) list"
  boundaryEdges :: "(SILBasicBlock \<times> nat set) list"
  deadDefs :: "(SILNode \<times> nat set) list"

text \<open>
  Modelled from the spec: reading the bits of a key, setting a bit of a key (what a caller
  does with the reference that \<^verbatim>\<open>getLastUserBits\<close>, \<^verbatim>\<open>getDeadDefsBits\<close> or
  \<^verbatim>\<open>getBoundaryEdgeBits\<close> returns), \<^verbatim>\<open>getNumLastUsersAndDeadDefs\<close>, and the boundary a
  caller starts from.
\<close>

definition getBits :: "('k \<times> nat set) list \<Rightarrow> 'k \<Rightarrow> nat set" where
  "getBits entries key = (case map_of entries key of None \<Rightarrow> {} | Some bits \<Rightarrow> bits)"

definition setBit :: "('k \<times> nat set) list \<Rightarrow> 'k \<Rightarrow> nat \<Rightarrow> ('k \<times> nat set) list" where
  "setBit entries key bitNo =
     (case map_of entries key of
        None \<Rightarrow> entries @ [(key, {bitNo})]
      | Some bits \<Rightarrow>
          map (\<lambda>entry. if fst entry = key then (key, insert bitNo (snd entry)) else entry) entries)"

definition setLastUserBit ::
  "FieldSensitivePrunedLivenessBoundary \<Rightarrow> SILInstruction \<Rightarrow> nat \<Rightarrow> FieldSensitivePrunedLivenessBoundary" where
  "setLastUserBit boundary inst bitNo = boundary\<lparr>lastUsers := setBit (lastUsers boundary) inst bitNo\<rparr>"

definition setDeadDefsBit ::
  "FieldSensitivePrunedLivenessBoundary \<Rightarrow> SILNode \<Rightarrow> nat \<Rightarrow> FieldSensitivePrunedLivenessBoundary" where
  "setDeadDefsBit boundary node bitNo = boundary\<lparr>deadDefs := setBit (deadDefs boundary) node bitNo\<rparr>"

definition setBoundaryEdgeBit ::
  "FieldSensitivePrunedLivenessBoundary \<Rightarrow> SILBasicBlock \<Rightarrow> nat \<Rightarrow> FieldSensitivePrunedLivenessBoundary" where
  "setBoundaryEdgeBit boundary block bitNo =
     boundary\<lparr>boundaryEdges := setBit (boundaryEdges boundary) block bitNo\<rparr>"

definition getNumLastUsersAndDeadDefs :: "FieldSensitivePrunedLivenessBoundary \<Rightarrow> nat \<Rightarrow> nat" where
  "getNumLastUsersAndDeadDefs boundary bitNo =
     length (filter (\<lambda>entry. bitNo \<in> snd entry) (lastUsers boundary)) +
     length (filter (\<lambda>entry. bitNo \<in> snd entry) (deadDefs boundary))"

definition emptyBoundary :: FieldSensitivePrunedLivenessBoundary where
  "emptyBoundary = \<lparr>lastUsers = [], boundaryEdges = [], deadDefs = []\<rparr>"

subsection \<open>Boundary searches shared by the two variants\<close>

text \<open>
  \<^verbatim>\<open>findBoundaryInNonDefBlock\<close> (lines 1099-1115): the last interesting user of a
  live-within block, searched from the end of the block.
\<close>

fun findBoundaryInNonDefBlock_loop ::
  "'a FieldSensitivePrunedLiveness_scheme \<Rightarrow> nat \<Rightarrow> FieldSensitivePrunedLivenessBoundary \<Rightarrow>
   SILInstruction list \<Rightarrow> error + FieldSensitivePrunedLivenessBoundary" where
  "findBoundaryInNonDefBlock_loop liveness bitNo boundary [] = Inl Unreachable"
| "findBoundaryInNonDefBlock_loop liveness bitNo boundary (inst # rest) =
     (if isInterestingUser liveness inst bitNo \<noteq> NonUser
      then Inr (setLastUserBit boundary inst bitNo)
      else findBoundaryInNonDefBlock_loop liveness bitNo boundary rest)"

definition findBoundaryInNonDefBlock ::
  "SILFunction \<Rightarrow> SILBasicBlock \<Rightarrow> nat \<Rightarrow> FieldSensitivePrunedLivenessBoundary \<Rightarrow>
   'a FieldSensitivePrunedLiveness_scheme \<Rightarrow> error + FieldSensitivePrunedLivenessBoundary" where
  "findBoundaryInNonDefBlock fn block bitNo boundary liveness =
     (if getBlockLiveness (liveBlocks liveness) block bitNo \<noteq> LiveWithin then Inl AssertionFailed
      else findBoundaryInNonDefBlock_loop liveness bitNo boundary (rev (getInstructions fn block)))"

text \<open>
  \<^verbatim>\<open>findBoundaryInSSADefBlock\<close> (lines 1125-1148): from the end of the block of the
  definition, the first of the defining instruction (a dead definition) and an interesting
  user (a last user); when the block is exhausted the definition is cast to an argument.
\<close>

fun findBoundaryInSSADefBlock_loop ::
  "'a FieldSensitivePrunedLiveness_scheme \<Rightarrow> SILNode \<Rightarrow> nat \<Rightarrow> FieldSensitivePrunedLivenessBoundary \<Rightarrow>
   SILInstruction list \<Rightarrow> error + FieldSensitivePrunedLivenessBoundary" where
  "findBoundaryInSSADefBlock_loop liveness ssaDef bitNo boundary [] =
     (case ssaDef of
        ArgumentNode deadArg \<Rightarrow> Inr (setDeadDefsBit boundary (ArgumentNode deadArg) bitNo)
      | InstructionNode defInst \<Rightarrow> Inl AssertionFailed)"
| "findBoundaryInSSADefBlock_loop liveness ssaDef bitNo boundary (inst # rest) =
     (if InstructionNode inst = ssaDef
      then Inr (setDeadDefsBit boundary (InstructionNode inst) bitNo)
      else if isInterestingUser liveness inst bitNo \<noteq> NonUser
      then Inr (setLastUserBit boundary inst bitNo)
      else findBoundaryInSSADefBlock_loop liveness ssaDef bitNo boundary rest)"

definition findBoundaryInSSADefBlock ::
  "SILFunction \<Rightarrow> SILNode \<Rightarrow> nat \<Rightarrow> FieldSensitivePrunedLivenessBoundary \<Rightarrow>
   'a FieldSensitivePrunedLiveness_scheme \<Rightarrow> error + FieldSensitivePrunedLivenessBoundary" where
  "findBoundaryInSSADefBlock fn ssaDef bitNo boundary liveness =
     findBoundaryInSSADefBlock_loop liveness ssaDef bitNo boundary
       (rev (getInstructions fn (getParentBlock ssaDef)))"

subsection \<open>The single-definition live range\<close>

text \<open>
  Modelled from the spec: the members of \<^verbatim>\<open>FieldSensitiveSSAPrunedLiveRange\<close> and its
  \<^verbatim>\<open>isDefBlock\<close>, declared in the header that is not among the sources. One definition,
  an instruction or a block argument, owns a range of leaf bits (section 4.4); its block
  is the definition block of these bits.
\<close>

record FieldSensitiveSSAPrunedLiveRange = FieldSensitivePrunedLiveness +
  "def" :: "SILNode \<times> TypeTreeLeafTypeRange"

text \<open>
  Modelled from the spec: \<^verbatim>\<open>FieldSensitiveSSAPrunedLiveRange::isDefBlock\<close>, of the same
  header.
\<close>

definition ssa_isDefBlock :: "FieldSensitiveSSAPrunedLiveRange \<Rightarrow> SILBasicBlock \<Rightarrow> nat \<Rightarrow> bool" where
  "ssa_isDefBlock liveRange block bitNo \<longleftrightarrow>
     getParentBlock (fst (def liveRange)) = block \<and> contains (snd (def liveRange)) bitNo"

text \<open>\<^verbatim>\<open>FieldSensitiveSSAPrunedLiveRange::findBoundariesInBlock\<close> (lines 1158-1179).\<close>

definition ssa_findBoundariesInBlock ::
  "SILFunction \<Rightarrow> FieldSensitiveSSAPrunedLiveRange \<Rightarrow> SILBasicBlock \<Rightarrow> nat \<Rightarrow> bool \<Rightarrow>
   FieldSensitivePrunedLivenessBoundary \<Rightarrow> error + FieldSensitivePrunedLivenessBoundary" where
  "ssa_findBoundariesInBlock fn liveRange block bitNo isLiveOut boundary =
     (if \<not> isInitialized (liveBlocks liveRange) then Inl AssertionFailed
      else if isLiveOut then Inr boundary
      else if \<not> ssa_isDefBlock liveRange block bitNo
      then findBoundaryInNonDefBlock fn block bitNo boundary liveRange
      else if \<not> contains (snd (def liveRange)) bitNo then Inl AssertionFailed
      else findBoundaryInSSADefBlock fn (fst (def liveRange)) bitNo boundary liveRange)"

subsection \<open>The multi-definition live range\<close>

text \<open>
  Modelled from the spec: the members of \<^verbatim>\<open>FieldSensitiveMultiDefPrunedLiveRange\<close> and its
  \<^verbatim>\<open>isDef\<close> and \<^verbatim>\<open>isDefBlock\<close>, declared in the header that is not among the sources. Any
  number of definitions, each an instruction or a block argument with the range of leaf
  bits it owns (section 4.4), in a multimap that \<^verbatim>\<open>findBoundariesInBlock\<close> reads with
  \<^verbatim>\<open>find\<close>, \<^verbatim>\<open>size\<close> and \<^verbatim>\<open>vector_begin\<close>. A node defines a bit when one of its ranges
  contains the bit, the test that \<^verbatim>\<open>findBoundariesInBlock\<close> writes out for the block
  arguments (lines 1294-1298); a block is a definition block of a bit when a node in it
  defines the bit.
\<close>

record FieldSensitiveMultiDefPrunedLiveRange = FieldSensitivePrunedLiveness +
  defs :: "(SILNode \<times> TypeTreeLeafTypeRange) list"

text \<open>
  Modelled from the spec: \<^verbatim>\<open>defs.find\<close>, \<^verbatim>\<open>isDef\<close> and \<^verbatim>\<open>isDefBlock\<close> of the
  multi-definition live range, of the same header.
\<close>

definition defs_find :: "FieldSensitiveMultiDefPrunedLiveRange \<Rightarrow> SILNode \<Rightarrow> TypeTreeLeafTypeRange list" where
  "defs_find liveRange node = map snd (filter (\<lambda>entry. fst entry = node) (defs liveRange))"

definition isDef :: "FieldSensitiveMultiDefPrunedLiveRange \<Rightarrow> SILNode \<Rightarrow> nat \<Rightarrow> bool" where
  "isDef liveRange node bitNo \<longleftrightarrow>
     list_ex (\<lambda>span. contains span bitNo) (defs_find liveRange node)"

definition isDefBlock :: "FieldSensitiveMultiDefPrunedLiveRange \<Rightarrow> SILBasicBlock \<Rightarrow> nat \<Rightarrow> bool" where
  "isDefBlock liveRange block bitNo \<longleftrightarrow>
     list_ex (\<lambda>entry. getParentBlock (fst entry) = block \<and> contains (snd entry) bitNo)
       (defs liveRange)"

text \<open>
  \<^verbatim>\<open>FieldSensitiveMultiDefPrunedLiveRange::isUserBeforeDef\<close> (lines 1036-1058). The
  loop steps to the previous instruction until there is none or it is a definition.
\<close>

lemma getPreviousInstruction_position:
  "getPreviousInstruction current = Some previous \<Longrightarrow> getPosition previous < getPosition current"
  by (cases current rule: getPreviousInstruction.cases) auto

function isUserBeforeDef_loop ::
  "FieldSensitiveMultiDefPrunedLiveRange \<Rightarrow> nat \<Rightarrow> SILInstruction \<Rightarrow> bool" where
  "isUserBeforeDef_loop liveRange element current =
     (case getPreviousInstruction current of
        None \<Rightarrow> True
      | Some previous \<Rightarrow>
          if isDef liveRange (InstructionNode previous) element then False
          else isUserBeforeDef_loop liveRange element previous)"
  by pat_completeness auto
termination
  by (relation "measure (\<lambda>(liveRange, element, current). getPosition current)")
     (auto dest: getPreviousInstruction_position)

definition isUserBeforeDef ::
  "SILFunction \<Rightarrow> FieldSensitiveMultiDefPrunedLiveRange \<Rightarrow> SILInstruction \<Rightarrow> nat \<Rightarrow> bool" where
  "isUserBeforeDef fn liveRange user element =
     (let block = getParent user
      in if \<not> isDefBlock liveRange block element then False
         else if list_ex (\<lambda>arg. isDef liveRange (ArgumentNode arg) element) (getArguments fn block)
         then False
         else isUserBeforeDef_loop liveRange element user)"

text \<open>
  \<^verbatim>\<open>FieldSensitiveMultiDefPrunedLiveRange::findBoundariesInBlock\<close> (lines 1190-1326).
  \<open>scanInstruction\<close> is the body of the loop over the reversed block on the flag
  \<open>isLive\<close>, \<open>markDeadArguments\<close> the loop over the block arguments, \<open>markEntryEdge\<close> the
  test on the predecessors that follows it.
\<close>

fun scanInstruction ::
  "FieldSensitiveMultiDefPrunedLiveRange \<Rightarrow> nat \<Rightarrow> SILInstruction \<Rightarrow>
   bool \<times> FieldSensitivePrunedLivenessBoundary \<Rightarrow> bool \<times> FieldSensitivePrunedLivenessBoundary" where
  "scanInstruction liveRange bitNo inst (isLive, boundary) =
     (let (isLive1, boundary1) =
            (if isDef liveRange (InstructionNode inst) bitNo
             then (False,
                   if \<not> isLive then setDeadDefsBit boundary (InstructionNode inst) bitNo
                   else boundary)
             else (isLive, boundary))
      in if \<not> isLive1
         then (if isInterestingUser liveRange inst bitNo \<noteq> NonUser
               then (True, setLastUserBit boundary1 inst bitNo)
               else (isLive1, boundary1))
         else (isLive1, boundary1))"

definition markDeadArguments ::
  "SILFunction \<Rightarrow> FieldSensitiveMultiDefPrunedLiveRange \<Rightarrow> SILBasicBlock \<Rightarrow> nat \<Rightarrow>
   FieldSensitivePrunedLivenessBoundary \<Rightarrow> FieldSensitivePrunedLivenessBoundary" where
  "markDeadArguments fn liveRange block bitNo boundary =
     fold (\<lambda>deadArg boundary.
             if list_ex (\<lambda>span. contains span bitNo) (defs_find liveRange (ArgumentNode deadArg))
             then setDeadDefsBit boundary (ArgumentNode deadArg) bitNo
             else boundary)
       (getArguments fn block) boundary"

definition allPredecessorsLiveOut ::
  "SILFunction \<Rightarrow> 'a FieldSensitivePrunedLiveness_scheme \<Rightarrow> SILBasicBlock \<Rightarrow> nat \<Rightarrow> bool" where
  "allPredecessorsLiveOut fn liveness block bitNo \<longleftrightarrow>
     list_all (\<lambda>predBlock. getBlockLiveness (liveBlocks liveness) predBlock bitNo = LiveOut)
       (getPredecessorBlocks fn block)"

definition markEntryEdge ::
  "SILFunction \<Rightarrow> FieldSensitiveMultiDefPrunedLiveRange \<Rightarrow> SILBasicBlock \<Rightarrow> nat \<Rightarrow>
   FieldSensitivePrunedLivenessBoundary \<Rightarrow> FieldSensitivePrunedLivenessBoundary" where
  "markEntryEdge fn liveRange block bitNo boundary =
     (if getPredecessorBlocks fn block \<noteq> []
      then (if allPredecessorsLiveOut fn liveRange block bitNo
            then setBoundaryEdgeBit boundary block bitNo
            else boundary)
      else boundary)"

definition scanBlock ::
  "SILFunction \<Rightarrow> FieldSensitiveMultiDefPrunedLiveRange \<Rightarrow> SILBasicBlock \<Rightarrow> nat \<Rightarrow> bool \<Rightarrow>
   FieldSensitivePrunedLivenessBoundary \<Rightarrow> bool \<times> FieldSensitivePrunedLivenessBoundary" where
  "scanBlock fn liveRange block bitNo isLiveOut boundary =
     fold (scanInstruction liveRange bitNo) (rev (getInstructions fn block)) (isLiveOut, boundary)"

definition findBoundariesInBlock ::
  "SILFunction \<Rightarrow> FieldSensitiveMultiDefPrunedLiveRange \<Rightarrow> SILBasicBlock \<Rightarrow> nat \<Rightarrow> bool \<Rightarrow>
   FieldSensitivePrunedLivenessBoundary \<Rightarrow> error + FieldSensitivePrunedLivenessBoundary" where
  "findBoundariesInBlock fn liveRange block bitNo isLiveOut boundary =
     (if \<not> isInitialized (liveBlocks liveRange) then Inl AssertionFailed
      else if \<not> isDefBlock liveRange block bitNo
      then (if isLiveOut then Inr boundary
            else findBoundaryInNonDefBlock fn block bitNo boundary liveRange)
      else case defs liveRange of
             [onlyDef] \<Rightarrow>
               if isLiveOut then Inr boundary
               else if \<not> contains (snd onlyDef) bitNo then Inl AssertionFailed
               else findBoundaryInSSADefBlock fn (fst onlyDef) bitNo boundary liveRange
           | _ \<Rightarrow>
               let prevCount = getNumLastUsersAndDeadDefs boundary bitNo;
                   (isLive, boundary1) = scanBlock fn liveRange block bitNo isLiveOut boundary;
                   boundary2 =
                     (if \<not> isLive
                      then markEntryEdge fn liveRange block bitNo
                             (markDeadArguments fn liveRange block bitNo boundary1)
                      else boundary1)
               in if isLiveOut \<or> prevCount < getNumLastUsersAndDeadDefs boundary2 bitNo
                  then Inr boundary2
                  else Inl AssertionFailed)"

subsection \<open>The boundary resolver\<close>

text \<open>
  \<^verbatim>\<open>FieldSensitivePrunedLiveRange::computeBoundary\<close> (lines 900-951), a template over
  the variant, whose \<^verbatim>\<open>findBoundariesInBlock\<close> is the parameter of the same name.
  \<open>markDeadSuccessors\<close> is the loop over the successors of a live-out block,
  \<open>computeBoundary_bits\<close> the loop over the bits of one block with the flag
  \<open>foundAnyNonDead\<close>, \<open>computeBoundary_blocks\<close> the loop over the discovered blocks with
  the assertion at the end of its body.
\<close>

definition markDeadSuccessors ::
  "SILFunction \<Rightarrow> 'a FieldSensitivePrunedLiveness_scheme \<Rightarrow> SILBasicBlock \<Rightarrow> nat \<Rightarrow>
   FieldSensitivePrunedLivenessBoundary \<Rightarrow> FieldSensitivePrunedLivenessBoundary" where
  "markDeadSuccessors fn liveness block index boundary =
     fold (\<lambda>succBB boundary.
             if getBlockLiveness (liveBlocks liveness) succBB index = Dead
             then setBoundaryEdgeBit boundary succBB index
             else boundary)
       (getSuccessors fn block) boundary"

fun computeBoundary_bits ::
  "SILFunction \<Rightarrow>
   (SILBasicBlock \<Rightarrow> nat \<Rightarrow> bool \<Rightarrow> FieldSensitivePrunedLivenessBoundary \<Rightarrow>
      error + FieldSensitivePrunedLivenessBoundary) \<Rightarrow>
   'a FieldSensitivePrunedLiveness_scheme \<Rightarrow> SILBasicBlock \<Rightarrow> (nat \<times> IsLive) list \<Rightarrow>
   FieldSensitivePrunedLivenessBoundary \<times> bool \<Rightarrow>
   error + FieldSensitivePrunedLivenessBoundary \<times> bool" where
  "computeBoundary_bits fn findBoundaries liveness block [] (boundary, foundAnyNonDead) =
     Inr (boundary, foundAnyNonDead)"
| "computeBoundary_bits fn findBoundaries liveness block ((index, isLive) # rest)
     (boundary, foundAnyNonDead) =
     (case isLive of
        LiveOut \<Rightarrow>
          (case findBoundaries block index True
                  (markDeadSuccessors fn liveness block index boundary) of
             Inl e \<Rightarrow> Inl e
           | Inr boundary1 \<Rightarrow>
               computeBoundary_bits fn findBoundaries liveness block rest (boundary1, True))
      | LiveWithin \<Rightarrow>
          (case findBoundaries block index False boundary of
             Inl e \<Rightarrow> Inl e
           | Inr boundary1 \<Rightarrow>
               computeBoundary_bits fn findBoundaries liveness block rest (boundary1, True))
      | Dead \<Rightarrow>
          computeBoundary_bits fn findBoundaries liveness block rest (boundary, foundAnyNonDead))"

text \<open>
  Modelled from the spec: \<^verbatim>\<open>getBlockLiveness(block, isLiveTmp)\<close>, of the same header:
  the states of the block for all tracked bits (section 4.5 of the specification: "for
  every discovered block, for every bit").
\<close>

definition getAllBlockLiveness ::
  "FieldSensitivePrunedLiveBlocks \<Rightarrow> SILBasicBlock \<Rightarrow> IsLive list" where
  "getAllBlockLiveness s block =
     (case numBitsToTrack s of
        None \<Rightarrow> []
      | Some numBits \<Rightarrow> getBlockLivenessRange s block 0 numBits)"

fun computeBoundary_blocks ::
  "SILFunction \<Rightarrow>
   (SILBasicBlock \<Rightarrow> nat \<Rightarrow> bool \<Rightarrow> FieldSensitivePrunedLivenessBoundary \<Rightarrow>
      error + FieldSensitivePrunedLivenessBoundary) \<Rightarrow>
   'a FieldSensitivePrunedLiveness_scheme \<Rightarrow> SILBasicBlock list \<Rightarrow>
   FieldSensitivePrunedLivenessBoundary \<Rightarrow> error + FieldSensitivePrunedLivenessBoundary" where
  "computeBoundary_blocks fn findBoundaries liveness [] boundary = Inr boundary"
| "computeBoundary_blocks fn findBoundaries liveness (block # rest) boundary =
     (let isLiveTmp = getAllBlockLiveness (liveBlocks liveness) block
      in case computeBoundary_bits fn findBoundaries liveness block
                (zip [0..<length isLiveTmp] isLiveTmp) (boundary, False) of
           Inl e \<Rightarrow> Inl e
         | Inr (boundary1, foundAnyNonDead) \<Rightarrow>
             if \<not> foundAnyNonDead then Inl AssertionFailed
             else computeBoundary_blocks fn findBoundaries liveness rest boundary1)"

definition computeBoundary ::
  "SILFunction \<Rightarrow>
   (SILBasicBlock \<Rightarrow> nat \<Rightarrow> bool \<Rightarrow> FieldSensitivePrunedLivenessBoundary \<Rightarrow>
      error + FieldSensitivePrunedLivenessBoundary) \<Rightarrow>
   'a FieldSensitivePrunedLiveness_scheme \<Rightarrow> FieldSensitivePrunedLivenessBoundary \<Rightarrow>
   error + FieldSensitivePrunedLivenessBoundary" where
  "computeBoundary fn findBoundaries liveness boundary =
     (if \<not> isInitialized (liveBlocks liveness) then Inl AssertionFailed
      else computeBoundary_blocks fn findBoundaries liveness
             (discoveredBlocks (liveBlocks liveness)) boundary)"

definition ssa_computeBoundary ::
  "SILFunction \<Rightarrow> FieldSensitiveSSAPrunedLiveRange \<Rightarrow> FieldSensitivePrunedLivenessBoundary \<Rightarrow>
   error + FieldSensitivePrunedLivenessBoundary" where
  "ssa_computeBoundary fn liveRange boundary =
     computeBoundary fn (ssa_findBoundariesInBlock fn liveRange) liveRange boundary"

definition multiDef_computeBoundary ::
  "SILFunction \<Rightarrow> FieldSensitiveMultiDefPrunedLiveRange \<Rightarrow> FieldSensitivePrunedLivenessBoundary \<Rightarrow>
   error + FieldSensitivePrunedLivenessBoundary" where
  "multiDef_computeBoundary fn liveRange boundary =
     computeBoundary fn (findBoundariesInBlock fn liveRange) liveRange boundary"

subsection \<open>The search for an earlier consuming use\<close>










subsection \<open>The walk of the search\<close>






subsection \<open>Scenarios\<close>

text \<open>
  Scenario 4 of the specification: the blocks \<open>Entry = 0\<close>, \<open>Mid = 1\<close> and \<open>Exit = 2\<close> in a
  chain, two instructions in each, and one tracked bit that is dead everywhere before the
  first use is recorded.
\<close>

definition chainFunction :: SILFunction where
  "chainFunction =
     \<lparr>numInstructions = (\<lambda>block. 2), numArguments = (\<lambda>block. 0), edges = [(0, 1), (1, 2)]\<rparr>"

definition untouchedLiveBlocks :: FieldSensitivePrunedLiveBlocks where
  "untouchedLiveBlocks =
     \<lparr>numBitsToTrack = Some 1, blockLiveness = (\<lambda>block bitNo. Dead), discoveredBlocks = []\<rparr>"

definition untouchedLiveness :: FieldSensitivePrunedLiveness where
  "untouchedLiveness =
     \<lparr>liveBlocks = untouchedLiveBlocks, users = (\<lambda>user element. NonUser)\<rparr>"

text \<open>
  A recording of users that tags the bits of the range of a use, for the parameters of
  the two calls of the tracker.
\<close>

definition tagUse :: "SILInstruction \<Rightarrow> TypeTreeLeafTypeRange \<Rightarrow> bool \<Rightarrow> Users \<Rightarrow> Users" where
  "tagUse user span lifetimeEnding us =
     (\<lambda>inst element.
        if inst = user \<and> contains span element
        then (if lifetimeEnding then LifetimeEndingUse else NonLifetimeEndingUse)
        else us inst element)"

definition tagNonUse :: "SILInstruction \<Rightarrow> TypeTreeLeafTypeRange \<Rightarrow> Users \<Rightarrow> Users" where
  "tagNonUse user span us =
     (\<lambda>inst element. if inst = user \<and> contains span element then NonUser else us inst element)"

text \<open>
  A block with one argument and two instructions, and a multi-definition live range of
  one bit whose only definition in the block is the argument.
\<close>

definition argumentFunction :: SILFunction where
  "argumentFunction =
     \<lparr>numInstructions = (\<lambda>block. 2), numArguments = (\<lambda>block. 1), edges = []\<rparr>"

definition argumentDefRange :: FieldSensitiveMultiDefPrunedLiveRange where
  "argumentDefRange =
     \<lparr>liveBlocks = untouchedLiveBlocks, users = (\<lambda>user element. NonUser),
      defs = [(ArgumentNode (SILArgument 0 0), TypeTreeLeafTypeRange 0 1)]\<rparr>"

text \<open>The same block in a live range whose only definition is the first instruction.\<close>

definition instructionDefRange :: FieldSensitiveMultiDefPrunedLiveRange where
  "instructionDefRange =
     \<lparr>liveBlocks = untouchedLiveBlocks, users = (\<lambda>user element. NonUser),
      defs = [(InstructionNode (SILInstruction 0 0), TypeTreeLeafTypeRange 0 1)]\<rparr>"

text \<open>
  Two blocks, \<open>0\<close> before \<open>1\<close>, and one bit with two definitions: the first instruction of
  block \<open>0\<close> and the first instruction of block \<open>1\<close>. The value of block \<open>0\<close> is live out of
  it; block \<open>1\<close> defines the bit anew before its second instruction uses it, so that the
  bit is live within block \<open>1\<close> and not live at its top.
\<close>

definition redefiningFunction :: SILFunction where
  "redefiningFunction =
     \<lparr>numInstructions = (\<lambda>block. 2), numArguments = (\<lambda>block. 0), edges = [(0, 1)]\<rparr>"

definition redefiningRange :: FieldSensitiveMultiDefPrunedLiveRange where
  "redefiningRange =
     \<lparr>liveBlocks =
        \<lparr>numBitsToTrack = Some 1,
         blockLiveness =
           (\<lambda>block bitNo. if block = 0 then LiveOut else if block = 1 then LiveWithin else Dead),
         discoveredBlocks = [0, 1]\<rparr>,
      users =
        (\<lambda>user element.
           if user = SILInstruction 1 1 \<and> element = 0 then LifetimeEndingUse else NonUser),
      defs =
        [(InstructionNode (SILInstruction 0 0), TypeTreeLeafTypeRange 0 1),
         (InstructionNode (SILInstruction 1 0), TypeTreeLeafTypeRange 0 1)]\<rparr>"

text \<open>
  Scenario 5 of the specification: a value defined by the first instruction of \<open>Entry = 0\<close>
  is live out of it; of the two successors, block \<open>1\<close> never uses it and block \<open>2\<close> ends
  its lifetime in its first instruction.
\<close>

definition forkFunction :: SILFunction where
  "forkFunction =
     \<lparr>numInstructions = (\<lambda>block. 2), numArguments = (\<lambda>block. 0), edges = [(0, 1), (0, 2)]\<rparr>"

definition forkRange :: FieldSensitiveSSAPrunedLiveRange where
  "forkRange =
     \<lparr>liveBlocks =
        \<lparr>numBitsToTrack = Some 1,
         blockLiveness =
           (\<lambda>block bitNo. if block = 0 then LiveOut else if block = 2 then LiveWithin else Dead),
         discoveredBlocks = [0, 2]\<rparr>,
      users =
        (\<lambda>user element.
           if user = SILInstruction 2 0 \<and> element = 0 then LifetimeEndingUse else NonUser),
      def = (InstructionNode (SILInstruction 0 0), TypeTreeLeafTypeRange 0 1)\<rparr>"





subsection \<open>The words of the specification\<close>

text \<open>
  The backward walk of the specification's \<^verbatim>\<open>isUserBeforeDef\<close> (section 4.4): a definition
  of the bit is found walking backward from the user before the start of the block when
  an instruction at a position before the user's defines the bit.
\<close>

definition definitionFoundWalkingBackward ::
  "FieldSensitiveMultiDefPrunedLiveRange \<Rightarrow> SILInstruction \<Rightarrow> nat \<Rightarrow> bool" where
  "definitionFoundWalkingBackward liveRange user element \<longleftrightarrow>
     list_ex (\<lambda>position.
                isDef liveRange (InstructionNode (SILInstruction (getParent user) position)) element)
       [0..<getPosition user]"

text \<open>
  Every invocation of the callback in a list of invocations returned true: the invocation
  number \<open>k\<close> is on the instruction \<open>calls ! k\<close> after the invocations \<open>take k calls\<close>.
\<close>

definition allAccepted ::
  "(SILInstruction list \<Rightarrow> SILInstruction \<Rightarrow> bool) \<Rightarrow> SILInstruction list \<Rightarrow> bool" where
  "allAccepted callback calls \<longleftrightarrow>
     list_all (\<lambda>k. callback (take k calls) (calls ! k)) [0..<length calls]"

text \<open>The callback that never aborts the search.\<close>

definition acceptAll :: "SILInstruction list \<Rightarrow> SILInstruction \<Rightarrow> bool" where
  "acceptAll calls ii = True"





subsection \<open>Invariants of the proofs\<close>

text \<open>
  What holds at the head of the loop: the open run, if there is one, started at \<open>c\<close> after a
  clear bit (or at the first bit) and every bit since is set; with no open run the bit
  before \<open>bitNo\<close> is clear.
\<close>

definition loopInv :: "bool list \<Rightarrow> nat \<Rightarrow> nat option \<Rightarrow> bool" where
  "loopInv bits bitNo current \<longleftrightarrow>
     bitNo \<le> length bits \<and>
     (case current of
        Some c \<Rightarrow> c < bitNo \<and> (\<forall>i \<in> {c..<bitNo}. bits ! i) \<and> (c = 0 \<or> \<not> bits ! (c - 1))
      | None \<Rightarrow> bitNo = 0 \<or> \<not> bits ! (bitNo - 1))"

definition lowest :: "nat \<Rightarrow> nat option \<Rightarrow> nat" where
  "lowest bitNo current = (case current of Some c \<Rightarrow> c | None \<Rightarrow> bitNo)"

text \<open>
  The ranges passed so far from \<open>lo\<close> on: maximal runs, in increasing order with a gap
  between any two, that cover every set bit from \<open>lo\<close> on.
\<close>

definition goodRanges :: "bool list \<Rightarrow> nat \<Rightarrow> TypeTreeLeafTypeRange list \<Rightarrow> bool" where
  "goodRanges bits lo rs \<longleftrightarrow>
     (\<forall>r \<in> set rs. maximalRun bits (startEltOffset r) (endEltOffset r) \<and> lo \<le> startEltOffset r) \<and>
     sorted_wrt (\<lambda>r r'. endEltOffset r < startEltOffset r') rs \<and>
     (\<forall>i. lo \<le> i \<and> i < length bits \<and> bits ! i \<longrightarrow>
          (\<exists>r \<in> set rs. startEltOffset r \<le> i \<and> i < endEltOffset r))"

text \<open>
  One state of the block liveness is below another when they track the same number of
  bits and no pair of block and bit has a lower rank in the second.
\<close>

definition livenessLe ::
  "FieldSensitivePrunedLiveBlocks \<Rightarrow> FieldSensitivePrunedLiveBlocks \<Rightarrow> bool" where
  "livenessLe s s' \<longleftrightarrow>
     numBitsToTrack s' = numBitsToTrack s \<and>
     (\<forall>block bitNo. rank (getBlockLiveness s block bitNo) \<le> rank (getBlockLiveness s' block bitNo))"


text \<open>
  The invocations a search adds: lifetime-ending uses of the bit that do not define it.
\<close>

definition consumingUses ::
  "FieldSensitiveMultiDefPrunedLiveRange \<Rightarrow> nat \<Rightarrow> SILInstruction list \<Rightarrow> bool" where
  "consumingUses liveRange index added \<longleftrightarrow>
     (\<forall>ii \<in> set added. isInterestingUser liveRange ii index = LifetimeEndingUse \<and>
        \<not> isDef liveRange (InstructionNode ii) index)"


subsection \<open>Facts about the loops of the count\<close>

lemma foldl_plus_sum_list:
  "foldl (\<lambda>n x. n + f x) (a :: 32 word) xs = a + sum_list (map f xs)"
  by (induction xs arbitrary: a) (simp_all add: add.assoc)

lemma foldl_max_payloads:
  "foldl (\<lambda>n eltDecl. case eltDecl of None \<Rightarrow> n | Some elt \<Rightarrow> max n (f elt)) (a :: 32 word) elts
     = foldl max a (map f (payloadTypes elts))"
  by (induction elts arbitrary: a) (simp_all add: payloadTypes_def split: option.split)

lemma foldl_max_ge_start: "(a :: 32 word) \<le> foldl max a cs"
proof (induction cs arbitrary: a)
  case Nil
  show ?case by simp
next
  case (Cons c cs)
  have "a \<le> max a c" by simp
  also have "max a c \<le> foldl max (max a c) cs" by (rule Cons.IH)
  finally show ?case by simp
qed

lemma foldl_max_ge_member: "c \<in> set cs \<Longrightarrow> (c :: 32 word) \<le> foldl max a cs"
proof (induction cs arbitrary: a)
  case Nil
  then show ?case by simp
next
  case (Cons d cs)
  show ?case
  proof (cases "c = d")
    case True
    have "c \<le> max a d" using True by simp
    also have "max a d \<le> foldl max (max a d) cs" by (rule foldl_max_ge_start)
    finally show ?thesis by simp
  next
    case False
    with Cons.prems have "c \<in> set cs" by simp
    then show ?thesis using Cons.IH by simp
  qed
qed

lemma foldl_max_attained: "foldl max (a :: 32 word) cs = a \<or> foldl max a cs \<in> set cs"
proof (induction cs arbitrary: a)
  case Nil
  show ?case by simp
next
  case (Cons d cs)
  from Cons.IH [of "max a d"] show ?case
    by (auto simp: max_def split: if_splits)
qed

lemma foldl_max_Max: "cs \<noteq> [] \<Longrightarrow> foldl max (0 :: 32 word) cs = Max (set cs)"
proof -
  assume ne: "cs \<noteq> []"
  have fin: "finite (set cs)" by simp
  have ub: "\<forall>c \<in> set cs. c \<le> foldl max 0 cs" by (simp add: foldl_max_ge_member)
  have "foldl max (0 :: 32 word) cs = 0 \<or> foldl max 0 cs \<in> set cs" by (rule foldl_max_attained)
  then have mem: "foldl max (0 :: 32 word) cs \<in> set cs"
  proof
    assume z: "foldl max (0 :: 32 word) cs = 0"
    obtain c where c: "c \<in> set cs" using ne by (cases cs) auto
    then have "c \<le> 0" using ub z by auto
    then have "c = 0" by simp
    then show ?thesis using c z by simp
  qed
  show ?thesis using Max_eqI [OF fin _ mem] ub by auto
qed

lemma enum_count:
  "TypeSubElementCount (EnumType elts) =
     1 + foldl max 0 (map TypeSubElementCount (payloadTypes elts))"
  by (simp add: foldl_max_payloads)

subsection \<open>Facts about the walks\<close>

lemma operand_differs:
  "UncheckedTakeEnumDataAddrInst i ty v \<noteq> v"
  "InitEnumDataAddrInst i ty v \<noteq> v"
  "UncheckedEnumDataInst i ty v \<noteq> v"
  by (induction v) simp_all

lemma addTupleElementsBefore_succeeds:
  "\<forall>i \<in> set is. i < length elts \<Longrightarrow>
   \<exists>off'. addTupleElementsBefore (TupleType elts) is off = Inr off'"
  by (induction "is" arbitrary: off) simp_all

lemma tupleProjection_verified:
  "isTupleWithElement (getType v) n \<Longrightarrow> \<exists>off'. tupleProjection v n off = LookThrough v off'"
proof -
  assume a: "isTupleWithElement (getType v) n"
  then obtain elts where ty: "getType v = TupleType elts" and n: "n < length elts"
    by (cases "getType v") simp_all
  have "\<forall>i \<in> set [0..<n]. i < length elts" using n by simp
  from addTupleElementsBefore_succeeds [OF this]
  obtain off' where "addTupleElementsBefore (TupleType elts) [0..<n] off = Inr off'" by blast
  then show ?thesis by (simp add: tupleProjection_def ty)
qed

lemma structProjection_verified:
  "isStructWithField (getType v) n \<Longrightarrow> \<exists>off'. structProjection v n off = LookThrough v off'"
  by (cases "getType v") (simp_all add: structProjection_def)

text \<open>
  On verified SIL a turn of either loop looks through to the operand or returns
  \<^verbatim>\<open>llvm::None\<close>, and which of the two does not depend on the offset so far.
\<close>

lemma addressStep_verified:
  "verified p \<Longrightarrow>
   (\<exists>v. verified v \<and> (\<forall>off. \<exists>off'. addressStep off p = LookThrough v off')) \<or>
   (\<forall>off. addressStep off p = ReturnNone)"
proof (cases p)
  case (TupleElementAddrInst i ty v n)
  assume "verified p"
  then show ?thesis using TupleElementAddrInst tupleProjection_verified [of v n] by auto
next
  case (StructElementAddrInst i ty v n)
  assume "verified p"
  then show ?thesis using StructElementAddrInst structProjection_verified [of v n] by auto
qed auto

lemma valueStep_verified:
  "verified p \<Longrightarrow>
   (\<exists>v. verified v \<and> (\<forall>off. \<exists>off'. valueStep off p = LookThrough v off')) \<or>
   (\<forall>off. valueStep off p = ReturnNone)"
proof (cases p)
  case (TupleExtractInst i ty v n)
  assume "verified p"
  then show ?thesis using TupleExtractInst tupleProjection_verified [of v n] by auto
next
  case (DestructureTupleResult i ty v n)
  assume "verified p"
  then show ?thesis using DestructureTupleResult tupleProjection_verified [of v n] by auto
next
  case (StructExtractInst i ty v n)
  assume "verified p"
  then show ?thesis using StructExtractInst structProjection_verified [of v n] by auto
next
  case (DestructureStructResult i ty v n)
  assume "verified p"
  then show ?thesis using DestructureStructResult structProjection_verified [of v n] by auto
qed auto

declare computeForAddress_loop.simps [simp del] computeForValue_loop.simps [simp del]
  addressChain.simps [simp del] valueChain.simps [simp del]

lemma computeForAddress_loop_chain:
  "verified p \<Longrightarrow>
   (root \<in> set (addressChain p) \<longrightarrow> (\<exists>r. computeForAddress_loop off p root = Inr (Some r))) \<and>
   (root \<notin> set (addressChain p) \<longrightarrow> computeForAddress_loop off p root = Inr None)"
proof (induction p arbitrary: off rule: addressChain.induct)
  case (1 p)
  show ?case
  proof (cases "root = p")
    case True
    then show ?thesis
      by (simp add: computeForAddress_loop.simps [of off p] addressChain.simps [of p])
  next
    case False
    from addressStep_verified [OF "1.prems"] show ?thesis
    proof
      assume "\<exists>v. verified v \<and> (\<forall>off. \<exists>off'. addressStep off p = LookThrough v off')"
      then obtain v where v: "verified v"
        and st: "\<forall>off. \<exists>off'. addressStep off p = LookThrough v off'" by blast
      obtain o0 where o0: "addressStep 0 p = LookThrough v o0" using st by blast
      obtain o1 where o1: "addressStep off p = LookThrough v o1" using st by blast
      from "1.IH" [OF o0 v, of o1] show ?thesis using False o0 o1
        by (simp add: computeForAddress_loop.simps [of off p] addressChain.simps [of p])
    next
      assume "\<forall>off. addressStep off p = ReturnNone"
      then show ?thesis using False
        by (simp add: computeForAddress_loop.simps [of off p] addressChain.simps [of p])
    qed
  qed
qed

lemma computeForValue_loop_chain:
  "verified p \<Longrightarrow>
   (root \<in> set (valueChain p) \<longrightarrow> (\<exists>r. computeForValue_loop off p root = Inr (Some r))) \<and>
   (root \<notin> set (valueChain p) \<longrightarrow> computeForValue_loop off p root = Inr None)"
proof (induction p arbitrary: off rule: valueChain.induct)
  case (1 p)
  show ?case
  proof (cases "root = p")
    case True
    then show ?thesis
      by (simp add: computeForValue_loop.simps [of off p] valueChain.simps [of p])
  next
    case False
    from valueStep_verified [OF "1.prems"] show ?thesis
    proof
      assume "\<exists>v. verified v \<and> (\<forall>off. \<exists>off'. valueStep off p = LookThrough v off')"
      then obtain v where v: "verified v"
        and st: "\<forall>off. \<exists>off'. valueStep off p = LookThrough v off'" by blast
      obtain o0 where o0: "valueStep 0 p = LookThrough v o0" using st by blast
      obtain o1 where o1: "valueStep off p = LookThrough v o1" using st by blast
      from "1.IH" [OF o0 v, of o1] show ?thesis using False o0 o1
        by (simp add: computeForValue_loop.simps [of off p] valueChain.simps [of p])
    next
      assume "\<forall>off. valueStep off p = ReturnNone"
      then show ?thesis using False
        by (simp add: computeForValue_loop.simps [of off p] valueChain.simps [of p])
    qed
  qed
qed

lemma computeForAddress_loop_through:
  "p \<noteq> root \<Longrightarrow> addressStep off p = LookThrough v off' \<Longrightarrow>
   computeForAddress_loop off p root = computeForAddress_loop off' v root"
  by (simp add: computeForAddress_loop.simps [of off p])

lemma computeForValue_loop_through:
  "p \<noteq> root \<Longrightarrow> valueStep off p = LookThrough v off' \<Longrightarrow>
   computeForValue_loop off p root = computeForValue_loop off' v root"
  by (simp add: computeForValue_loop.simps [of off p])

lemma computeForAddress_loop_unrecognized:
  "p \<noteq> root \<Longrightarrow> addressStep off p = ReturnNone \<Longrightarrow> computeForAddress_loop off p root = Inr None"
  by (simp add: computeForAddress_loop.simps [of off p])

lemma computeForValue_loop_unrecognized:
  "p \<noteq> root \<Longrightarrow> valueStep off p = ReturnNone \<Longrightarrow> computeForValue_loop off p root = Inr None"
  by (simp add: computeForValue_loop.simps [of off p])

lemma computeForAddress_loop_root:
  "computeForAddress_loop off root root = Inr (Some off)"
  by (simp add: computeForAddress_loop.simps [of off root])

lemma computeForValue_loop_root:
  "computeForValue_loop off root root = Inr (Some off)"
  by (simp add: computeForValue_loop.simps [of off root])

subsection \<open>Facts about the runs of a bit vector\<close>

declare visitContiguousRanges_loop.simps [simp del]

lemma goodRanges_raise:
  "goodRanges bits (Suc bitNo) rs \<Longrightarrow> \<not> bits ! bitNo \<Longrightarrow> goodRanges bits bitNo rs"
  unfolding goodRanges_def
  by (metis Suc_leD Suc_leI le_neq_implies_less)

lemma goodRanges_emit:
  assumes rest: "goodRanges bits (Suc bitNo) rs"
    and run: "maximalRun bits c bitNo"
    and clear: "\<not> bits ! bitNo"
  shows "goodRanges bits c (TypeTreeLeafTypeRange c bitNo # rs)"
proof -
  have cb: "c < bitNo" using run by (simp add: maximalRun_def)
  have 1: "\<forall>r \<in> set (TypeTreeLeafTypeRange c bitNo # rs).
      maximalRun bits (startEltOffset r) (endEltOffset r) \<and> c \<le> startEltOffset r"
    using rest run cb by (auto simp: goodRanges_def TypeTreeLeafTypeRange_def)
  have 2: "sorted_wrt (\<lambda>r r'. endEltOffset r < startEltOffset r') (TypeTreeLeafTypeRange c bitNo # rs)"
    using rest by (auto simp: goodRanges_def TypeTreeLeafTypeRange_def)
  have 3: "\<exists>r \<in> set (TypeTreeLeafTypeRange c bitNo # rs). startEltOffset r \<le> i \<and> i < endEltOffset r"
    if i: "c \<le> i" "i < length bits" "bits ! i" for i
  proof (cases "i < bitNo")
    case True
    then show ?thesis using i by (simp add: TypeTreeLeafTypeRange_def)
  next
    case False
    then have "Suc bitNo \<le> i" using clear i(3) by (metis not_less_eq_eq le_neq_implies_less)
    then show ?thesis using rest i by (auto simp: goodRanges_def)
  qed
  show ?thesis unfolding goodRanges_def using 1 2 3 by blast
qed

lemma loop_finished:
  "length bits \<le> bitNo \<Longrightarrow>
   visitContiguousRanges_loop bits bitNo current =
     (case current of Some start \<Rightarrow> [TypeTreeLeafTypeRange start (length bits)] | None \<Rightarrow> [])"
  by (subst visitContiguousRanges_loop.simps) simp

lemma loop_step:
  "bitNo < length bits \<Longrightarrow>
   visitContiguousRanges_loop bits bitNo current =
     (case current of
        Some start \<Rightarrow>
          if \<not> bits ! bitNo
          then TypeTreeLeafTypeRange start bitNo # visitContiguousRanges_loop bits (Suc bitNo) None
          else visitContiguousRanges_loop bits (Suc bitNo) current
      | None \<Rightarrow>
          if bits ! bitNo then visitContiguousRanges_loop bits (Suc bitNo) (Some bitNo)
          else visitContiguousRanges_loop bits (Suc bitNo) current)"
  by (subst visitContiguousRanges_loop.simps) (simp add: Let_def)

lemma loop_goodRanges:
  "loopInv bits bitNo current \<Longrightarrow>
   goodRanges bits (lowest bitNo current) (visitContiguousRanges_loop bits bitNo current)"
proof (induction "length bits - bitNo" arbitrary: bitNo current)
  case 0
  then have eq: "bitNo = length bits" by (simp add: loopInv_def)
  show ?case
  proof (cases current)
    case None
    then show ?thesis using eq
      by (simp add: loop_finished goodRanges_def lowest_def)
  next
    case (Some c)
    then show ?thesis using eq "0.prems"
      by (auto simp: loop_finished goodRanges_def lowest_def
          loopInv_def maximalRun_def TypeTreeLeafTypeRange_def)
  qed
next
  case (Suc n)
  then have lt: "bitNo < length bits" and n: "n = length bits - Suc bitNo" by simp_all
  show ?case
  proof (cases current)
    case None
    show ?thesis
    proof (cases "bits ! bitNo")
      case True
      have inv: "loopInv bits (Suc bitNo) (Some bitNo)"
        using Suc.prems lt True None by (auto simp: loopInv_def)
      from Suc.hyps(1) [OF n inv]
      show ?thesis using lt None True
        by (simp add: loop_step lowest_def)
    next
      case False
      have inv: "loopInv bits (Suc bitNo) None"
        using Suc.prems lt False None by (auto simp: loopInv_def)
      from Suc.hyps(1) [OF n inv] have "goodRanges bits (Suc bitNo)
          (visitContiguousRanges_loop bits (Suc bitNo) None)" by (simp add: lowest_def)
      from goodRanges_raise [OF this False]
      show ?thesis using lt None False
        by (simp add: loop_step lowest_def)
    qed
  next
    case (Some c)
    show ?thesis
    proof (cases "bits ! bitNo")
      case True
      have inv: "loopInv bits (Suc bitNo) (Some c)"
        using Suc.prems lt True Some by (auto simp: loopInv_def less_Suc_eq)
      from Suc.hyps(1) [OF n inv]
      show ?thesis using lt Some True
        by (simp add: loop_step lowest_def)
    next
      case False
      have inv: "loopInv bits (Suc bitNo) None"
        using Suc.prems lt False Some by (auto simp: loopInv_def)
      have run: "maximalRun bits c bitNo"
        using Suc.prems lt False Some by (auto simp: loopInv_def maximalRun_def)
      from Suc.hyps(1) [OF n inv] have "goodRanges bits (Suc bitNo)
          (visitContiguousRanges_loop bits (Suc bitNo) None)" by (simp add: lowest_def)
      from goodRanges_emit [OF this run False]
      show ?thesis using lt Some False
        by (simp add: loop_step lowest_def)
    qed
  qed
qed

lemma visitContiguousRanges_good: "goodRanges bits 0 (visitContiguousRanges bits)"
proof (cases "length bits = 0")
  case True
  then show ?thesis by (simp add: visitContiguousRanges_def goodRanges_def)
next
  case False
  have "loopInv bits 0 None" by (simp add: loopInv_def)
  from loop_goodRanges [OF this] show ?thesis using False
    by (simp add: visitContiguousRanges_def lowest_def)
qed

lemma maximalRun_unique:
  assumes "maximalRun bits s e" "maximalRun bits s' e'" "s \<le> i" "i < e" "s' \<le> i" "i < e'"
  shows "s = s' \<and> e = e'"
proof -
  have all: "\<forall>j. s \<le> j \<and> j < e \<longrightarrow> bits ! j" "\<forall>j. s' \<le> j \<and> j < e' \<longrightarrow> bits ! j"
    using assms(1,2) by (auto simp: maximalRun_def)
  have s: "s = s'"
  proof (rule ccontr)
    assume ne: "s \<noteq> s'"
    show False
    proof (cases "s < s'")
      case True
      then have "s' \<noteq> 0" "s \<le> s' - 1" "s' - 1 < e" using assms(4,5) by auto
      then show False using all(1) assms(2) by (auto simp: maximalRun_def)
    next
      case False
      then have "s \<noteq> 0" "s' \<le> s - 1" "s - 1 < e'" using ne assms(3,6) by auto
      then show False using all(2) assms(1) by (auto simp: maximalRun_def)
    qed
  qed
  have e: "e = e'"
  proof (rule ccontr)
    assume ne: "e \<noteq> e'"
    show False
    proof (cases "e < e'")
      case True
      then have "e \<noteq> length bits" "s' \<le> e" using assms(2,3,4,5) s by (auto simp: maximalRun_def)
      then show False using all(2) True assms(1) by (auto simp: maximalRun_def)
    next
      case False
      then have "e' \<noteq> length bits" "s \<le> e'" "e' < e" using ne assms(1,3,4,5,6) s by (auto simp: maximalRun_def)
      then show False using all(1) assms(2) by (auto simp: maximalRun_def)
    qed
  qed
  show ?thesis using s e by simp
qed

lemma sorted_wrt_distinct:
  "sorted_wrt P xs \<Longrightarrow> \<forall>x \<in> set xs. \<not> P x x \<Longrightarrow> distinct xs"
  by (induction xs) auto

lemma count_list_distinct: "distinct xs \<Longrightarrow> x \<in> set xs \<Longrightarrow> count_list xs x = 1"
  by (induction xs) auto

lemma range_eq: "r = TypeTreeLeafTypeRange s e \<longleftrightarrow> startEltOffset r = s \<and> endEltOffset r = e"
  by (cases r) (auto simp: TypeTreeLeafTypeRange_def)

subsection \<open>Facts about the block liveness\<close>

declare computeScalarUseBlockLiveness_loop.simps [simp del]

lemma livenessLe_refl: "livenessLe s s"
  by (simp add: livenessLe_def)

lemma livenessLe_trans: "livenessLe s s1 \<Longrightarrow> livenessLe s1 s2 \<Longrightarrow> livenessLe s s2"
  unfolding livenessLe_def by (metis order_trans)

lemma rank_promote: "rank old \<le> rank (promote old isLive)"
  by (cases old; cases isLive) simp_all

lemma markBlockLive_le: "livenessLe s (markBlockLive s bb bitNo isLive)"
  by (simp add: livenessLe_def markBlockLive_def getBlockLiveness_def rank_promote)

lemma visitPredecessor_le:
  "visitPredecessor order bitNo p (w, s) = (w', s') \<Longrightarrow> livenessLe s s'"
  by (auto simp: markBlockLive_le livenessLe_refl split: IsLive.splits)

lemma visitPredecessors_le:
  "fold (visitPredecessor order bitNo) preds (w, s) = (w', s') \<Longrightarrow> livenessLe s s'"
proof (induction preds arbitrary: w s)
  case Nil
  then show ?case by (simp add: livenessLe_refl)
next
  case (Cons p preds)
  obtain w1 s1 where step: "visitPredecessor order bitNo p (w, s) = (w1, s1)"
    by (cases "visitPredecessor order bitNo p (w, s)")
  from Cons.prems step have "fold (visitPredecessor order bitNo) preds (w1, s1) = (w', s')"
    by simp
  from Cons.IH [OF this] visitPredecessor_le [OF step] show ?case
    by (rule livenessLe_trans [rotated])
qed

lemma computeScalarUseBlockLiveness_loop_le:
  "livenessLe s (computeScalarUseBlockLiveness_loop fn order bitNo w s)"
proof (induction fn order bitNo w s rule: computeScalarUseBlockLiveness_loop.induct)
  case (1 fn order bitNo w s)
  show ?case
  proof (cases "pop w")
    case None
    then show ?thesis
      by (simp add: computeScalarUseBlockLiveness_loop.simps [of fn order bitNo w s] livenessLe_refl)
  next
    case (Some popped)
    obtain block w1 where popped: "popped = (block, w1)" by (cases popped)
    obtain w2 s2 where folded:
      "fold (visitPredecessor order bitNo) (getPredecessorBlocks fn block) (w1, s) = (w2, s2)"
      by (cases "fold (visitPredecessor order bitNo) (getPredecessorBlocks fn block) (w1, s)")
    have step: "livenessLe s s2" using folded by (rule visitPredecessors_le)
    have rest: "livenessLe s2 (computeScalarUseBlockLiveness_loop fn order bitNo w2 s2)"
      using "1.IH" [OF Some popped [symmetric] folded [symmetric]] .
    have "computeScalarUseBlockLiveness_loop fn order bitNo w s =
        computeScalarUseBlockLiveness_loop fn order bitNo w2 s2"
      using Some popped folded
      by (simp add: computeScalarUseBlockLiveness_loop.simps [of fn order bitNo w s] del: pop.simps)
    then show ?thesis using livenessLe_trans [OF step rest] by simp
  qed
qed

lemma computeScalarUseBlockLiveness_le:
  "livenessLe s (computeScalarUseBlockLiveness fn order s userBB bitNo)"
  unfolding computeScalarUseBlockLiveness_def
  by (rule livenessLe_trans [OF markBlockLive_le computeScalarUseBlockLiveness_loop_le])

lemma updateForUse_loop_le:
  "updateForUse_loop fn order bb startBitNo useBeforeDefBits indices (s, info) = (s', info') \<Longrightarrow>
   livenessLe s s'"
proof (induction indices arbitrary: s info)
  case Nil
  then show ?case by (simp add: livenessLe_refl)
next
  case (Cons index rest)
  show ?case
  proof (cases "info ! index \<noteq> Dead \<and> \<not> useBeforeDefBits (startBitNo + index)")
    case True
    with Cons.prems have
      "updateForUse_loop fn order bb startBitNo useBeforeDefBits rest (s, info) = (s', info')"
      by (simp add: Let_def)
    then show ?thesis by (rule Cons.IH)
  next
    case False
    let ?s1 = "computeScalarUseBlockLiveness fn order s bb (startBitNo + index)"
    from False Cons.prems have
      "updateForUse_loop fn order bb startBitNo useBeforeDefBits rest
         (?s1, info[index := getBlockLiveness ?s1 bb (startBitNo + index)]) = (s', info')"
      by (auto simp: Let_def split: if_splits)
    from Cons.IH [OF this] computeScalarUseBlockLiveness_le [of s fn order bb "startBitNo + index"]
    show ?thesis by (rule livenessLe_trans [rotated])
  qed
qed

lemma liveBlocks_updateForUse_le:
  "liveBlocks_updateForUse fn order s user startBitNo endBitNo useBeforeDefBits = Inr (s', info) \<Longrightarrow>
   livenessLe s s'"
  unfolding liveBlocks_updateForUse_def
  by (auto simp: Let_def split: if_splits dest: updateForUse_loop_le)

lemma liveBlocks_updateForUse_returns:
  "isInitialized s \<Longrightarrow> startBitNo \<le> endBitNo \<Longrightarrow>
   \<exists>r. liveBlocks_updateForUse fn order s user startBitNo endBitNo useBeforeDefBits = Inr r"
  by (simp add: liveBlocks_updateForUse_def Let_def getBlockLivenessRange_def unsignedDifference_def)

lemma applyCall_le:
  "applyCall addInterestingUser recordNonUse fn order liveness call = Inr liveness' \<Longrightarrow>
   livenessLe (liveBlocks liveness) (liveBlocks liveness')"
  by (cases call)
     (auto simp: liveness_updateForUse_def liveness_extendToNonUse_def
        split: sum.splits dest: liveBlocks_updateForUse_le)

lemma applyCall_returns:
  "isInitialized (liveBlocks liveness) \<Longrightarrow> wellFormedRange (callRange call) \<Longrightarrow>
   \<exists>liveness'. applyCall addInterestingUser recordNonUse fn order liveness call = Inr liveness'"
proof (cases call)
  case (UpdateForUse user span lifetimeEnding useBeforeDefBits)
  assume "isInitialized (liveBlocks liveness)" "wellFormedRange (callRange call)"
  then obtain r where "liveBlocks_updateForUse fn order (liveBlocks liveness) user
      (startEltOffset span) (endEltOffset span) useBeforeDefBits = Inr r"
    using liveBlocks_updateForUse_returns UpdateForUse by (fastforce simp: wellFormedRange_def)
  then show ?thesis using UpdateForUse by (cases r) (simp add: liveness_updateForUse_def)
next
  case (ExtendToNonUse user span useBeforeDefBits)
  assume "isInitialized (liveBlocks liveness)" "wellFormedRange (callRange call)"
  then obtain r where "liveBlocks_updateForUse fn order (liveBlocks liveness) user
      (startEltOffset span) (endEltOffset span) useBeforeDefBits = Inr r"
    using liveBlocks_updateForUse_returns ExtendToNonUse by (fastforce simp: wellFormedRange_def)
  then show ?thesis using ExtendToNonUse by (cases r) (simp add: liveness_extendToNonUse_def)
qed

lemma applyCalls_le:
  "applyCalls addInterestingUser recordNonUse fn order liveness calls = Inr liveness' \<Longrightarrow>
   livenessLe (liveBlocks liveness) (liveBlocks liveness')"
proof (induction calls arbitrary: liveness)
  case Nil
  then show ?case by (simp add: livenessLe_refl)
next
  case (Cons call calls)
  then obtain liveness1 where
    one: "applyCall addInterestingUser recordNonUse fn order liveness call = Inr liveness1"
    and rest: "applyCalls addInterestingUser recordNonUse fn order liveness1 calls = Inr liveness'"
    by (auto split: sum.splits)
  from applyCall_le [OF one] Cons.IH [OF rest] show ?case by (rule livenessLe_trans)
qed

lemma applyCalls_append:
  "applyCalls a r fn order liveness (calls1 @ calls2) =
     (case applyCalls a r fn order liveness calls1 of
        Inl e \<Rightarrow> Inl e
      | Inr liveness1 \<Rightarrow> applyCalls a r fn order liveness1 calls2)"
  by (induction calls1 arbitrary: liveness) (auto split: sum.splits)

lemma applyCalls_returns:
  "isInitialized (liveBlocks liveness) \<Longrightarrow> \<forall>call \<in> set calls. wellFormedRange (callRange call) \<Longrightarrow>
   \<exists>liveness'. applyCalls addInterestingUser recordNonUse fn order liveness calls = Inr liveness'"
proof (induction calls arbitrary: liveness)
  case Nil
  then show ?case by simp
next
  case (Cons call calls)
  have "wellFormedRange (callRange call)" using Cons.prems(2) by simp
  from applyCall_returns [OF Cons.prems(1) this] obtain liveness1 where
    one: "applyCall addInterestingUser recordNonUse fn order liveness call = Inr liveness1"
    by blast
  have "isInitialized (liveBlocks liveness1)"
    using applyCall_le [OF one] Cons.prems(1) by (simp add: livenessLe_def isInitialized_def)
  from Cons.IH [OF this] Cons.prems(2) one show ?case by auto
qed

lemma liveBlocks_updateForUse_noop:
  assumes "isInitialized s" "startBitNo \<le> endBitNo"
    and "\<forall>bitNo \<in> {startBitNo..<endBitNo}.
           getBlockLiveness s (getParent user) bitNo \<noteq> Dead \<and> \<not> useBeforeDefBits bitNo"
  shows "liveBlocks_updateForUse fn order s user startBitNo endBitNo useBeforeDefBits =
     Inr (s, getBlockLivenessRange s (getParent user) startBitNo endBitNo)"
proof -
  let ?info = "getBlockLivenessRange s (getParent user) startBitNo endBitNo"
  have len: "length ?info = endBitNo - startBitNo" by (simp add: getBlockLivenessRange_def)
  have loop: "\<forall>index \<in> set indices. index < endBitNo - startBitNo \<Longrightarrow>
      updateForUse_loop fn order (getParent user) startBitNo useBeforeDefBits indices (s, ?info) =
        (s, ?info)" for indices
  proof (induction indices)
    case Nil
    show ?case by simp
  next
    case (Cons index rest)
    then have "index < endBitNo - startBitNo" by simp
    then have "?info ! index \<noteq> Dead \<and> \<not> useBeforeDefBits (startBitNo + index)"
      using assms(3) by (simp add: getBlockLivenessRange_def)
    then show ?case using Cons by (simp add: Let_def)
  qed
  show ?thesis using assms(1,2) len loop [of "[0..<endBitNo - startBitNo]"]
    by (simp add: liveBlocks_updateForUse_def Let_def unsignedDifference_def)
qed


lemma rank_LiveOut: "rank LiveOut \<le> rank x \<Longrightarrow> x = LiveOut"
  by (cases x) simp_all

subsection \<open>Facts about the multi-definition live range\<close>

declare isUserBeforeDef_loop.simps [simp del]

lemma isUserBeforeDef_loop_walk:
  "isUserBeforeDef_loop liveRange element (SILInstruction block position) \<longleftrightarrow>
   \<not> definitionFoundWalkingBackward liveRange (SILInstruction block position) element"
proof (induction position)
  case 0
  show ?case
    by (simp add: isUserBeforeDef_loop.simps [of _ _ "SILInstruction block 0"]
        definitionFoundWalkingBackward_def)
next
  case (Suc position)
  then show ?case
    by (simp add: isUserBeforeDef_loop.simps [of _ _ "SILInstruction block (Suc position)"]
        definitionFoundWalkingBackward_def)
qed

subsection \<open>Facts about the boundary\<close>

lemma getBits_setBit:
  "getBits (setBit entries key bitNo) key' =
     (if key' = key then insert bitNo (getBits entries key) else getBits entries key')"
proof (cases "map_of entries key")
  case None
  then show ?thesis by (auto simp: getBits_def setBit_def map_add_def split: option.splits)
next
  case (Some bits)
  have "map_of (map (\<lambda>entry. if fst entry = key then (key, insert bitNo (snd entry)) else entry)
          entries) key' =
        (if key' = key then map_option (insert bitNo) (map_of entries key') else map_of entries key')"
    by (induction entries) auto
  then show ?thesis using Some by (auto simp: getBits_def setBit_def split: option.splits)
qed

lemma boundaryEdges_setLastUserBit [simp]:
  "boundaryEdges (setLastUserBit boundary inst bitNo) = boundaryEdges boundary"
  by (simp add: setLastUserBit_def)

lemma boundaryEdges_setDeadDefsBit [simp]:
  "boundaryEdges (setDeadDefsBit boundary node bitNo) = boundaryEdges boundary"
  by (simp add: setDeadDefsBit_def)

lemma getBits_setBoundaryEdgeBit:
  "getBits (boundaryEdges (setBoundaryEdgeBit boundary block bitNo)) block' =
     (if block' = block then insert bitNo (getBits (boundaryEdges boundary) block)
      else getBits (boundaryEdges boundary) block')"
  by (simp add: setBoundaryEdgeBit_def getBits_setBit)

lemma scanInstruction_edges:
  "boundaryEdges (snd (scanInstruction liveRange bitNo inst state)) = boundaryEdges (snd state)"
  by (cases state) (simp add: Let_def split: prod.splits)

lemma scanInstructions_edges:
  "boundaryEdges (snd (fold (scanInstruction liveRange bitNo) insts state)) =
     boundaryEdges (snd state)"
  by (induction insts arbitrary: state) (simp_all add: scanInstruction_edges)

lemma scanBlock_edges:
  "boundaryEdges (snd (scanBlock fn liveRange block bitNo isLiveOut boundary)) =
     boundaryEdges boundary"
  by (simp add: scanBlock_def scanInstructions_edges)

lemma markDeadArguments_edges:
  "boundaryEdges (markDeadArguments fn liveRange block bitNo boundary) = boundaryEdges boundary"
proof -
  have "boundaryEdges (fold (\<lambda>deadArg boundary.
             if list_ex (\<lambda>span. contains span bitNo) (defs_find liveRange (ArgumentNode deadArg))
             then setDeadDefsBit boundary (ArgumentNode deadArg) bitNo
             else boundary) args boundary) = boundaryEdges boundary" for args
    by (induction args arbitrary: boundary) simp_all
  then show ?thesis by (simp add: markDeadArguments_def)
qed

lemma allPredecessorsLiveOut_iff:
  "allPredecessorsLiveOut fn liveness block bitNo \<longleftrightarrow>
     (\<forall>predBlock \<in> set (getPredecessorBlocks fn block).
        getBlockLiveness (liveBlocks liveness) predBlock bitNo = LiveOut)"
  by (simp add: allPredecessorsLiveOut_def list_all_iff)

lemma markDeadSuccessors_fold_edges:
  "b \<in> getBits (boundaryEdges (fold (\<lambda>succBB boundary.
             if getBlockLiveness (liveBlocks liveness) succBB index = Dead
             then setBoundaryEdgeBit boundary succBB index
             else boundary) succs boundary)) S \<longleftrightarrow>
   b \<in> getBits (boundaryEdges boundary) S \<or>
   (b = index \<and> S \<in> set succs \<and> getBlockLiveness (liveBlocks liveness) S index = Dead)"
  by (induction succs arbitrary: boundary) (auto simp: getBits_setBoundaryEdgeBit)

lemma markDeadSuccessors_edges:
  "b \<in> getBits (boundaryEdges (markDeadSuccessors fn liveness block index boundary)) S \<longleftrightarrow>
   b \<in> getBits (boundaryEdges boundary) S \<or>
   (b = index \<and> S \<in> set (getSuccessors fn block) \<and>
    getBlockLiveness (liveBlocks liveness) S index = Dead)"
  unfolding markDeadSuccessors_def by (rule markDeadSuccessors_fold_edges)

lemma markDeadSuccessors_others:
  "lastUsers (markDeadSuccessors fn liveness block index boundary) = lastUsers boundary \<and>
   deadDefs (markDeadSuccessors fn liveness block index boundary) = deadDefs boundary"
proof -
  have "lastUsers (fold (\<lambda>succBB boundary.
             if getBlockLiveness (liveBlocks liveness) succBB index = Dead
             then setBoundaryEdgeBit boundary succBB index
             else boundary) succs boundary) = lastUsers boundary \<and>
        deadDefs (fold (\<lambda>succBB boundary.
             if getBlockLiveness (liveBlocks liveness) succBB index = Dead
             then setBoundaryEdgeBit boundary succBB index
             else boundary) succs boundary) = deadDefs boundary" for succs
    by (induction succs arbitrary: boundary) (simp_all add: setBoundaryEdgeBit_def)
  then show ?thesis by (simp add: markDeadSuccessors_def)
qed

lemma findBoundaryInNonDefBlock_loop_edges:
  "findBoundaryInNonDefBlock_loop liveness bitNo boundary insts = Inr boundary' \<Longrightarrow>
   boundaryEdges boundary' = boundaryEdges boundary"
  by (induction insts) (auto split: if_splits)

lemma findBoundaryInSSADefBlock_loop_edges:
  "findBoundaryInSSADefBlock_loop liveness ssaDef bitNo boundary insts = Inr boundary' \<Longrightarrow>
   boundaryEdges boundary' = boundaryEdges boundary"
  by (induction insts) (auto split: if_splits SILNode.splits)

lemma ssa_findBoundariesInBlock_edges:
  "ssa_findBoundariesInBlock fn liveRange block bitNo isLiveOut boundary = Inr boundary' \<Longrightarrow>
   boundaryEdges boundary' = boundaryEdges boundary"
  by (auto simp: ssa_findBoundariesInBlock_def findBoundaryInNonDefBlock_def
      findBoundaryInSSADefBlock_def split: if_splits
      dest: findBoundaryInNonDefBlock_loop_edges findBoundaryInSSADefBlock_loop_edges)

lemma computeBoundary_bits_edges:
  assumes keeps: "\<And>block index isLiveOut boundary boundary'.
      findBoundaries block index isLiveOut boundary = Inr boundary' \<Longrightarrow>
      boundaryEdges boundary' = boundaryEdges boundary"
  shows "computeBoundary_bits fn findBoundaries liveness block pairs (boundary, found) =
       Inr (boundary', found') \<Longrightarrow>
     b \<in> getBits (boundaryEdges boundary') S \<longleftrightarrow>
     b \<in> getBits (boundaryEdges boundary) S \<or>
     ((b, LiveOut) \<in> set pairs \<and> S \<in> set (getSuccessors fn block) \<and>
      getBlockLiveness (liveBlocks liveness) S b = Dead)"
proof (induction pairs arbitrary: boundary found)
  case Nil
  then show ?case by simp
next
  case (Cons pair pairs)
  obtain index isLive where pair: "pair = (index, isLive)" by (cases pair)
  show ?case
  proof (cases isLive)
    case Dead
    with Cons.prems pair have
      "computeBoundary_bits fn findBoundaries liveness block pairs (boundary, found) =
         Inr (boundary', found')" by simp
    from Cons.IH [OF this] show ?thesis using pair Dead by auto
  next
    case LiveWithin
    with Cons.prems pair obtain boundary1 where
      one: "findBoundaries block index False boundary = Inr boundary1"
      and rest: "computeBoundary_bits fn findBoundaries liveness block pairs (boundary1, True) =
         Inr (boundary', found')"
      by (auto split: sum.splits)
    from Cons.IH [OF rest] keeps [OF one] show ?thesis using pair LiveWithin by auto
  next
    case LiveOut
    with Cons.prems pair obtain boundary1 where
      one: "findBoundaries block index True
              (markDeadSuccessors fn liveness block index boundary) = Inr boundary1"
      and rest: "computeBoundary_bits fn findBoundaries liveness block pairs (boundary1, True) =
         Inr (boundary', found')"
      by (auto split: sum.splits)
    from Cons.IH [OF rest] keeps [OF one]
      markDeadSuccessors_edges [of b fn liveness block index boundary S]
    show ?thesis using pair LiveOut by auto
  qed
qed

lemma zip_liveness_pairs:
  "(b, isLive) \<in> set (zip [0..<length (getAllBlockLiveness s block)] (getAllBlockLiveness s block))
   \<longleftrightarrow> (\<exists>numBits. numBitsToTrack s = Some numBits \<and> b < numBits \<and>
          isLive = getBlockLiveness s block b)"
proof (cases "numBitsToTrack s")
  case None
  then show ?thesis by (simp add: getAllBlockLiveness_def)
next
  case (Some numBits)
  have "zip xs (map (getBlockLiveness s block) xs) =
      map (\<lambda>x. (x, getBlockLiveness s block x)) xs" for xs
    by (induction xs) simp_all
  then have "(b, isLive) \<in> set (zip [0..<numBits] (map (getBlockLiveness s block) [0..<numBits]))
    \<longleftrightarrow> b < numBits \<and> isLive = getBlockLiveness s block b"
    by auto
  then show ?thesis using Some by (simp add: getAllBlockLiveness_def getBlockLivenessRange_def)
qed

lemma computeBoundary_blocks_edges:
  assumes keeps: "\<And>block index isLiveOut boundary boundary'.
      findBoundaries block index isLiveOut boundary = Inr boundary' \<Longrightarrow>
      boundaryEdges boundary' = boundaryEdges boundary"
  shows "computeBoundary_blocks fn findBoundaries liveness blocks boundary = Inr boundary' \<Longrightarrow>
     b \<in> getBits (boundaryEdges boundary') S \<longleftrightarrow>
     b \<in> getBits (boundaryEdges boundary) S \<or>
     (\<exists>block \<in> set blocks. \<exists>numBits.
        numBitsToTrack (liveBlocks liveness) = Some numBits \<and> b < numBits \<and>
        getBlockLiveness (liveBlocks liveness) block b = LiveOut \<and>
        S \<in> set (getSuccessors fn block) \<and>
        getBlockLiveness (liveBlocks liveness) S b = Dead)"
proof (induction blocks arbitrary: boundary)
  case Nil
  then show ?case by simp
next
  case (Cons block blocks)
  let ?tmp = "getAllBlockLiveness (liveBlocks liveness) block"
  from Cons.prems obtain boundary1 found where
    bits: "computeBoundary_bits fn findBoundaries liveness block
             (zip [0..<length ?tmp] ?tmp) (boundary, False) = Inr (boundary1, found)"
    and rest: "computeBoundary_blocks fn findBoundaries liveness blocks boundary1 = Inr boundary'"
    by (auto simp: Let_def split: sum.splits if_splits)
  from computeBoundary_bits_edges [OF keeps bits, where b = b and S = S]
  have one: "b \<in> getBits (boundaryEdges boundary1) S \<longleftrightarrow>
     b \<in> getBits (boundaryEdges boundary) S \<or>
     ((\<exists>numBits. numBitsToTrack (liveBlocks liveness) = Some numBits \<and> b < numBits \<and>
         LiveOut = getBlockLiveness (liveBlocks liveness) block b) \<and>
      S \<in> set (getSuccessors fn block) \<and>
      getBlockLiveness (liveBlocks liveness) S b = Dead)"
    by (simp add: zip_liveness_pairs)
  from Cons.IH [OF rest] one show ?case by auto
qed

subsection \<open>Facts about the search for an earlier consuming use\<close>










lemma consumingUses_simps [simp]:
  "consumingUses liveRange index []"
  "consumingUses liveRange index (ii # added) \<longleftrightarrow>
     isInterestingUser liveRange ii index = LifetimeEndingUse \<and>
     \<not> isDef liveRange (InstructionNode ii) index \<and> consumingUses liveRange index added"
  "consumingUses liveRange index (added @ added') \<longleftrightarrow>
     consumingUses liveRange index added \<and> consumingUses liveRange index added'"
  by (auto simp: consumingUses_def)






text \<open>
  A search with a callback and the search with the callback that never declines, from the
  same state: they go the same way until the callback declines.
\<close>

lemma allAccepted_acceptAll [simp]: "allAccepted acceptAll calls"
  by (simp add: allAccepted_def list_all_iff acceptAll_def)



































section \<open>The claims about the leaf model\<close>

text \<open>
  Claim C4. The claim: every type has a sub-element count of at least one, and a type
  with no stored properties, also an aggregate with no elements, reports one. The struct
  branch of the constructor resets a count of zero to one; the tuple branch does not,
  and the empty tuple reports zero.
\<close>

theorem TypeSubElementCount_empty_tuple:
  "TypeSubElementCount (TupleType []) = 0 \<and>
   TypeSubElementCount (StructType False False []) = 1"
  by simp

text \<open>
  Claim C5, as amended. The count of a tuple is the 32-bit sum of the counts of its
  elements. The count of a struct whose storage is fully referenceable is the sum of the
  counts of its stored properties, plus one when the struct has a deinit, except
  that a total of zero is reported as one.
\<close>

theorem TypeSubElementCount_additive:
  "TypeSubElementCount (TupleType elts) = sum_list (map TypeSubElementCount elts) \<and>
   TypeSubElementCount (StructType False deinit properties) =
     (let total = sum_list (map TypeSubElementCount properties) + (if deinit then 1 else 0)
      in if total = 0 then 1 else total)"
  by (simp add: foldl_plus_sum_list Let_def)

text \<open>
  Claim C5 as stated fails at the struct with no stored property and no deinit: the sum
  over its properties is zero and it reports one.
\<close>

theorem TypeSubElementCount_empty_struct_not_additive:
  "TypeSubElementCount (StructType False False []) \<noteq>
     sum_list (map TypeSubElementCount []) + (if False then 1 else 0)"
  by simp

text \<open>
  Claim C6. The count of an enum whose elements with associated values have the payload
  counts \<open>c1..ck\<close> is \<open>1 + max ci\<close> (one when no element has a payload); every payload
  count is at most the count of the enum less the discriminator bit; and a walk looks
  through \<^verbatim>\<open>unchecked_take_enum_data_addr\<close>, \<^verbatim>\<open>init_enum_data_addr\<close> and
  \<^verbatim>\<open>unchecked_enum_data\<close> with the offset unchanged, so that the payload of every element
  starts at offset zero of its enum.
\<close>

theorem enum_layout:
  "(payloadTypes elts \<noteq> [] \<longrightarrow>
      TypeSubElementCount (EnumType elts) =
        1 + Max (set (map TypeSubElementCount (payloadTypes elts)))) \<and>
   (payloadTypes elts = [] \<longrightarrow> TypeSubElementCount (EnumType elts) = 1) \<and>
   (\<forall>payload \<in> set (payloadTypes elts).
      TypeSubElementCount payload \<le> TypeSubElementCount (EnumType elts) - 1) \<and>
   (UncheckedTakeEnumDataAddrInst i ty v \<noteq> root \<longrightarrow>
      computeForAddress_loop off (UncheckedTakeEnumDataAddrInst i ty v) root =
        computeForAddress_loop off v root) \<and>
   (InitEnumDataAddrInst i ty v \<noteq> root \<longrightarrow>
      computeForAddress_loop off (InitEnumDataAddrInst i ty v) root =
        computeForAddress_loop off v root) \<and>
   (UncheckedEnumDataInst i ty v \<noteq> root \<longrightarrow>
      computeForValue_loop off (UncheckedEnumDataInst i ty v) root =
        computeForValue_loop off v root) \<and>
   computeForAddress (UncheckedTakeEnumDataAddrInst i ty v) v = Inr (Some 0) \<and>
   computeForAddress (InitEnumDataAddrInst i ty v) v = Inr (Some 0) \<and>
   computeForValue (UncheckedEnumDataInst i ty v) v = Inr (Some 0)"
proof -
  have count: "TypeSubElementCount (EnumType elts) =
      1 + foldl max 0 (map TypeSubElementCount (payloadTypes elts))"
    by (rule enum_count)
  have a: "payloadTypes elts \<noteq> [] \<longrightarrow>
      TypeSubElementCount (EnumType elts) =
        1 + Max (set (map TypeSubElementCount (payloadTypes elts)))"
    using count foldl_max_Max [of "map TypeSubElementCount (payloadTypes elts)"] by simp
  have b: "payloadTypes elts = [] \<longrightarrow> TypeSubElementCount (EnumType elts) = 1"
    using count by simp
  have c: "\<forall>payload \<in> set (payloadTypes elts).
      TypeSubElementCount payload \<le> TypeSubElementCount (EnumType elts) - 1"
    using count foldl_max_ge_member [of _ "map TypeSubElementCount (payloadTypes elts)" 0]
    by simp
  have d: "computeForAddress (UncheckedTakeEnumDataAddrInst i ty v) v = Inr (Some 0)"
    using operand_differs(1) [of i ty v]
    by (simp add: computeForAddress_def computeForAddress_loop_through computeForAddress_loop_root)
  have e: "computeForAddress (InitEnumDataAddrInst i ty v) v = Inr (Some 0)"
    using operand_differs(2) [of i ty v]
    by (simp add: computeForAddress_def computeForAddress_loop_through computeForAddress_loop_root)
  have f: "computeForValue (UncheckedEnumDataInst i ty v) v = Inr (Some 0)"
    using operand_differs(3) [of i ty v]
    by (simp add: computeForValue_def computeForValue_loop_through computeForValue_loop_root)
  show ?thesis using a b c d e f
    by (simp add: computeForAddress_loop_through computeForValue_loop_through)
qed

text \<open>
  The layout at the enum of scenario 3 of the specification: payloads of one and of three
  leaves give a count of four, and the payload projection of an address of that enum
  inside a tuple has the offset of the enum.
\<close>

theorem enum_layout_witness:
  "payloadTypes [Some OtherType, None, Some (TupleType [OtherType, OtherType, OtherType])] \<noteq> [] \<and>
   TypeSubElementCount
     (EnumType [Some OtherType, None, Some (TupleType [OtherType, OtherType, OtherType])]) = 4 \<and>
   TypeSubElementCount (TupleType [OtherType, OtherType, OtherType]) \<le> 3 \<and>
   computeForAddress_loop 1
     (UncheckedTakeEnumDataAddrInst 1 (TupleType [OtherType, OtherType, OtherType])
        (OtherValue 0
           (EnumType [Some OtherType, None, Some (TupleType [OtherType, OtherType, OtherType])])))
     (OtherValue 0
        (EnumType [Some OtherType, None, Some (TupleType [OtherType, OtherType, OtherType])]))
     = Inr (Some 1)"
  using enum_layout [of "[Some OtherType, None, Some (TupleType [OtherType, OtherType, OtherType])]"
      1 "TupleType [OtherType, OtherType, OtherType]"
      "OtherValue 0
         (EnumType [Some OtherType, None, Some (TupleType [OtherType, OtherType, OtherType])])"
      "OtherValue 0
         (EnumType [Some OtherType, None, Some (TupleType [OtherType, OtherType, OtherType])])"
      1]
  by (simp add: payloadTypes_def computeForAddress_loop_root)

text \<open>
  Claim C8. On verified SIL both walks return: an offset when the root is among the
  values the walk passes, and \<^verbatim>\<open>llvm::None\<close> when the walk meets a value of a kind it
  does not look through before it meets the root; no assertion stops them. A value of
  such a kind that is not the root gives \<^verbatim>\<open>llvm::None\<close> whatever the offset so far. The
  address walk looks through \<^verbatim>\<open>project_box\<close>, \<^verbatim>\<open>begin_access\<close>, \<^verbatim>\<open>store_borrow\<close> (to its
  destination) and \<^verbatim>\<open>moveonlywrapper_to_copyable_addr\<close>, the value walk through
  \<^verbatim>\<open>begin_borrow\<close>, \<^verbatim>\<open>copy_value\<close> and \<^verbatim>\<open>moveonlywrapper_to_copyable\<close>, with the offset
  unchanged.
\<close>

theorem offset_computation_total:
  "verified p \<Longrightarrow>
   (if root \<in> set (addressChain p) then \<exists>off. computeForAddress p root = Inr (Some off)
    else computeForAddress p root = Inr None) \<and>
   (if root \<in> set (valueChain p) then \<exists>off. computeForValue p root = Inr (Some off)
    else computeForValue p root = Inr None) \<and>
   (p \<noteq> root \<and> addressStep off p = ReturnNone \<longrightarrow>
      computeForAddress_loop off p root = Inr None) \<and>
   (p \<noteq> root \<and> valueStep off p = ReturnNone \<longrightarrow>
      computeForValue_loop off p root = Inr None) \<and>
   (ProjectBoxInst i ty p \<noteq> root \<longrightarrow>
      computeForAddress_loop off (ProjectBoxInst i ty p) root =
        computeForAddress_loop off p root) \<and>
   (BeginAccessInst i ty p \<noteq> root \<longrightarrow>
      computeForAddress_loop off (BeginAccessInst i ty p) root =
        computeForAddress_loop off p root) \<and>
   (StoreBorrowInst i ty src p \<noteq> root \<longrightarrow>
      computeForAddress_loop off (StoreBorrowInst i ty src p) root =
        computeForAddress_loop off p root) \<and>
   (MoveOnlyWrapperToCopyableAddrInst i ty p \<noteq> root \<longrightarrow>
      computeForAddress_loop off (MoveOnlyWrapperToCopyableAddrInst i ty p) root =
        computeForAddress_loop off p root) \<and>
   (BeginBorrowInst i ty p \<noteq> root \<longrightarrow>
      computeForValue_loop off (BeginBorrowInst i ty p) root =
        computeForValue_loop off p root) \<and>
   (CopyValueInst i ty p \<noteq> root \<longrightarrow>
      computeForValue_loop off (CopyValueInst i ty p) root =
        computeForValue_loop off p root) \<and>
   (MoveOnlyWrapperToCopyableValueInst i ty p \<noteq> root \<longrightarrow>
      computeForValue_loop off (MoveOnlyWrapperToCopyableValueInst i ty p) root =
        computeForValue_loop off p root)"
proof -
  assume v: "verified p"
  have a: "if root \<in> set (addressChain p) then \<exists>off. computeForAddress p root = Inr (Some off)
    else computeForAddress p root = Inr None"
    using computeForAddress_loop_chain [OF v, of root 0] by (simp add: computeForAddress_def)
  have b: "if root \<in> set (valueChain p) then \<exists>off. computeForValue p root = Inr (Some off)
    else computeForValue p root = Inr None"
    using computeForValue_loop_chain [OF v, of root 0] by (simp add: computeForValue_def)
  show ?thesis using a b
    by (simp add: computeForAddress_loop_through computeForValue_loop_through
        computeForAddress_loop_unrecognized computeForValue_loop_unrecognized)
qed

text \<open>
  The walks at the second stored property of the struct that is the second element of a
  tuple behind a \<^verbatim>\<open>begin_access\<close>: the address walk returns the offset two, the value walk
  does not look through the address projection and returns \<^verbatim>\<open>llvm::None\<close>.
\<close>

theorem offset_computation_total_witness:
  "verified
     (StructElementAddrInst 3 OtherType
        (TupleElementAddrInst 2 (StructType False True [OtherType, OtherType])
           (BeginAccessInst 1 (TupleType [OtherType, StructType False True [OtherType, OtherType]])
              (OtherValue 0 (TupleType [OtherType, StructType False True [OtherType, OtherType]])))
           1)
        1) \<and>
   (\<exists>off. computeForAddress
     (StructElementAddrInst 3 OtherType
        (TupleElementAddrInst 2 (StructType False True [OtherType, OtherType])
           (BeginAccessInst 1 (TupleType [OtherType, StructType False True [OtherType, OtherType]])
              (OtherValue 0 (TupleType [OtherType, StructType False True [OtherType, OtherType]])))
           1)
        1)
     (OtherValue 0 (TupleType [OtherType, StructType False True [OtherType, OtherType]]))
     = Inr (Some off)) \<and>
   computeForValue
     (StructElementAddrInst 3 OtherType
        (TupleElementAddrInst 2 (StructType False True [OtherType, OtherType])
           (BeginAccessInst 1 (TupleType [OtherType, StructType False True [OtherType, OtherType]])
              (OtherValue 0 (TupleType [OtherType, StructType False True [OtherType, OtherType]])))
           1)
        1)
     (OtherValue 0 (TupleType [OtherType, StructType False True [OtherType, OtherType]]))
     = Inr None"
  using offset_computation_total [of
      "StructElementAddrInst 3 OtherType
        (TupleElementAddrInst 2 (StructType False True [OtherType, OtherType])
           (BeginAccessInst 1 (TupleType [OtherType, StructType False True [OtherType, OtherType]])
              (OtherValue 0 (TupleType [OtherType, StructType False True [OtherType, OtherType]])))
           1)
        1"
      "OtherValue 0 (TupleType [OtherType, StructType False True [OtherType, OtherType]])"]
  by (simp add: addressChain.simps valueChain.simps tupleProjection_def structProjection_def upt_rec)

section \<open>The claim about the runs of a bit vector\<close>

text \<open>
  Claim C10. For every bit vector, the ranges that \<^verbatim>\<open>visitContiguousRanges\<close> passes to
  the callback are maximal contiguous runs of set bits, each not empty; every maximal
  run is passed exactly once; the ranges come in increasing order, each ending before the
  next starts; their union is the set of the set bits; and a vector of size zero or with
  no set bit gives no call.
\<close>

theorem visitContiguousRanges_maximal_runs:
  "(\<forall>r \<in> set (visitContiguousRanges bits).
      maximalRun bits (startEltOffset r) (endEltOffset r)) \<and>
   (\<forall>s e. maximalRun bits s e \<longrightarrow>
      count_list (visitContiguousRanges bits) (TypeTreeLeafTypeRange s e) = 1) \<and>
   sorted_wrt (\<lambda>r r'. endEltOffset r < startEltOffset r') (visitContiguousRanges bits) \<and>
   (\<Union>r \<in> set (visitContiguousRanges bits). {startEltOffset r..<endEltOffset r}) =
     {i. i < length bits \<and> bits ! i} \<and>
   ((\<forall>i < length bits. \<not> bits ! i) \<longrightarrow> visitContiguousRanges bits = []) \<and>
   (length bits = 0 \<longrightarrow> visitContiguousRanges bits = [])"
proof -
  let ?rs = "visitContiguousRanges bits"
  have good: "goodRanges bits 0 ?rs" by (rule visitContiguousRanges_good)
  have runs: "\<forall>r \<in> set ?rs. maximalRun bits (startEltOffset r) (endEltOffset r)"
    using good by (simp add: goodRanges_def)
  have sorted: "sorted_wrt (\<lambda>r r'. endEltOffset r < startEltOffset r') ?rs"
    using good by (simp add: goodRanges_def)
  have cover: "\<exists>r \<in> set ?rs. startEltOffset r \<le> i \<and> i < endEltOffset r"
    if "i < length bits" "bits ! i" for i
    using good that by (simp add: goodRanges_def)
  have "\<forall>r \<in> set ?rs. \<not> endEltOffset r < startEltOffset r"
    using runs by (auto simp: maximalRun_def)
  with sorted have dist: "distinct ?rs" by (rule sorted_wrt_distinct)
  have once: "count_list ?rs (TypeTreeLeafTypeRange s e) = 1" if run: "maximalRun bits s e" for s e
  proof -
    have s: "s < length bits" "bits ! s" "s < e" using run by (auto simp: maximalRun_def)
    from cover [OF s(1,2)] obtain r where r: "r \<in> set ?rs"
      and sr: "startEltOffset r \<le> s" "s < endEltOffset r" by blast
    have "maximalRun bits (startEltOffset r) (endEltOffset r)" using runs r by blast
    from maximalRun_unique [OF this run sr(1) sr(2) le_refl s(3)]
    have "r = TypeTreeLeafTypeRange s e" by (simp add: range_eq)
    then show ?thesis using r dist count_list_distinct by metis
  qed
  have union: "(\<Union>r \<in> set ?rs. {startEltOffset r..<endEltOffset r}) =
      {i. i < length bits \<and> bits ! i}"
  proof (rule set_eqI)
    fix i
    show "i \<in> (\<Union>r \<in> set ?rs. {startEltOffset r..<endEltOffset r}) \<longleftrightarrow>
        i \<in> {i. i < length bits \<and> bits ! i}"
    proof
      assume "i \<in> (\<Union>r \<in> set ?rs. {startEltOffset r..<endEltOffset r})"
      then obtain r where r: "r \<in> set ?rs" "startEltOffset r \<le> i" "i < endEltOffset r" by auto
      then have "maximalRun bits (startEltOffset r) (endEltOffset r)" using runs by blast
      then show "i \<in> {i. i < length bits \<and> bits ! i}" using r(2,3)
        by (auto simp: maximalRun_def)
    next
      assume "i \<in> {i. i < length bits \<and> bits ! i}"
      then show "i \<in> (\<Union>r \<in> set ?rs. {startEltOffset r..<endEltOffset r})"
        using cover [of i] by auto
    qed
  qed
  have none: "?rs = []" if clear: "\<forall>i < length bits. \<not> bits ! i"
  proof (cases ?rs)
    case Nil
    then show ?thesis .
  next
    case (Cons r rest)
    then have "maximalRun bits (startEltOffset r) (endEltOffset r)" using runs by simp
    then have "startEltOffset r < length bits" "bits ! startEltOffset r"
      by (auto simp: maximalRun_def)
    then show ?thesis using clear by blast
  qed
  have empty: "length bits = 0 \<longrightarrow> ?rs = []" by (simp add: visitContiguousRanges_def)
  show ?thesis using runs once sorted union none empty by blast
qed

text \<open>
  The vector \<open>1100101\<close> (bit 0 first) has the maximal runs \<open>[0, 2)\<close>, \<open>[4, 5)\<close> and
  \<open>[6, 7)\<close>; they are what the callback receives, in this order.
\<close>

theorem visitContiguousRanges_maximal_runs_witness:
  "maximalRun [True, True, False, False, True, False, True] 4 5 \<and>
   count_list (visitContiguousRanges [True, True, False, False, True, False, True])
     (TypeTreeLeafTypeRange 4 5) = 1 \<and>
   visitContiguousRanges [True, True, False, False, True, False, True] =
     [TypeTreeLeafTypeRange 0 2, TypeTreeLeafTypeRange 4 5, TypeTreeLeafTypeRange 6 7]"
proof -
  have run: "maximalRun [True, True, False, False, True, False, True] 4 5"
    by (simp add: maximalRun_def)
  have calls: "visitContiguousRanges [True, True, False, False, True, False, True] =
     [TypeTreeLeafTypeRange 0 2, TypeTreeLeafTypeRange 4 5, TypeTreeLeafTypeRange 6 7]"
    by (simp add: visitContiguousRanges_def loop_step loop_finished numeral_2_eq_2
        eval_nat_numeral)
  show ?thesis
    using visitContiguousRanges_maximal_runs [of "[True, True, False, False, True, False, True]"]
      run calls by blast
qed

section \<open>The claim about the block liveness\<close>

text \<open>
  Claim C1. Over any sequence of \<^verbatim>\<open>updateForUse\<close> and \<^verbatim>\<open>extendToNonUse\<close> calls that
  returns, the liveness of a block for a bit after any prefix of the calls is at least
  what it was before the first call and at most what it is after the last one, under
  \<open>Dead < LiveWithin < LiveOut\<close>, and a block that is \<open>LiveOut\<close> for a bit stays so; a
  sequence of calls on an initialized tracker whose ranges do not end before they start
  does return. The same holds of one update of the block liveness. A use of a bit
  recorded in a block that is \<open>LiveOut\<close> for the bit, with the use not flagged as a use
  before the definition, leaves the whole state as it is.
\<close>

theorem liveness_monotone:
  "(applyCalls addInterestingUser recordNonUse fn order liveness (calls1 @ calls2) = Inr liveness2 \<longrightarrow>
      (\<exists>liveness1.
         applyCalls addInterestingUser recordNonUse fn order liveness calls1 = Inr liveness1 \<and>
         rank (getBlockLiveness (liveBlocks liveness) block bitNo)
           \<le> rank (getBlockLiveness (liveBlocks liveness1) block bitNo) \<and>
         rank (getBlockLiveness (liveBlocks liveness1) block bitNo)
           \<le> rank (getBlockLiveness (liveBlocks liveness2) block bitNo) \<and>
         (getBlockLiveness (liveBlocks liveness1) block bitNo = LiveOut \<longrightarrow>
            getBlockLiveness (liveBlocks liveness2) block bitNo = LiveOut))) \<and>
   (isInitialized (liveBlocks liveness) \<and> (\<forall>call \<in> set calls1. wellFormedRange (callRange call)) \<longrightarrow>
      (\<exists>liveness1.
         applyCalls addInterestingUser recordNonUse fn order liveness calls1 = Inr liveness1)) \<and>
   (liveBlocks_updateForUse fn order s user startBitNo endBitNo useBeforeDefBits = Inr (s', info) \<longrightarrow>
      rank (getBlockLiveness s block bitNo) \<le> rank (getBlockLiveness s' block bitNo) \<and>
      (getBlockLiveness s block bitNo = LiveOut \<longrightarrow> getBlockLiveness s' block bitNo = LiveOut)) \<and>
   (isInitialized s \<and> getBlockLiveness s (getParent user) bitNo = LiveOut \<and>
    \<not> useBeforeDefBits bitNo \<longrightarrow>
      liveBlocks_updateForUse fn order s user bitNo (Suc bitNo) useBeforeDefBits =
        Inr (s, [LiveOut]))"
proof -
  have seq: "\<exists>liveness1.
         applyCalls addInterestingUser recordNonUse fn order liveness calls1 = Inr liveness1 \<and>
         rank (getBlockLiveness (liveBlocks liveness) block bitNo)
           \<le> rank (getBlockLiveness (liveBlocks liveness1) block bitNo) \<and>
         rank (getBlockLiveness (liveBlocks liveness1) block bitNo)
           \<le> rank (getBlockLiveness (liveBlocks liveness2) block bitNo) \<and>
         (getBlockLiveness (liveBlocks liveness1) block bitNo = LiveOut \<longrightarrow>
            getBlockLiveness (liveBlocks liveness2) block bitNo = LiveOut)"
    if all: "applyCalls addInterestingUser recordNonUse fn order liveness (calls1 @ calls2) =
      Inr liveness2"
  proof -
    from all obtain liveness1 where
      first: "applyCalls addInterestingUser recordNonUse fn order liveness calls1 = Inr liveness1"
      and second: "applyCalls addInterestingUser recordNonUse fn order liveness1 calls2 = Inr liveness2"
      by (auto simp: applyCalls_append split: sum.splits)
    have le1: "rank (getBlockLiveness (liveBlocks liveness) block bitNo)
           \<le> rank (getBlockLiveness (liveBlocks liveness1) block bitNo)"
      using applyCalls_le [OF first] by (simp add: livenessLe_def)
    have le2: "rank (getBlockLiveness (liveBlocks liveness1) block bitNo)
           \<le> rank (getBlockLiveness (liveBlocks liveness2) block bitNo)"
      using applyCalls_le [OF second] by (simp add: livenessLe_def)
    have "getBlockLiveness (liveBlocks liveness1) block bitNo = LiveOut \<longrightarrow>
            getBlockLiveness (liveBlocks liveness2) block bitNo = LiveOut"
      using le2 rank_LiveOut by metis
    then show ?thesis using first le1 le2 by blast
  qed
  have returns: "\<exists>liveness1.
         applyCalls addInterestingUser recordNonUse fn order liveness calls1 = Inr liveness1"
    if "isInitialized (liveBlocks liveness)" "\<forall>call \<in> set calls1. wellFormedRange (callRange call)"
    using applyCalls_returns [OF that] .
  have one: "rank (getBlockLiveness s block bitNo) \<le> rank (getBlockLiveness s' block bitNo) \<and>
      (getBlockLiveness s block bitNo = LiveOut \<longrightarrow> getBlockLiveness s' block bitNo = LiveOut)"
    if "liveBlocks_updateForUse fn order s user startBitNo endBitNo useBeforeDefBits = Inr (s', info)"
  proof -
    have "rank (getBlockLiveness s block bitNo) \<le> rank (getBlockLiveness s' block bitNo)"
      using liveBlocks_updateForUse_le [OF that] by (simp add: livenessLe_def)
    then show ?thesis using rank_LiveOut by metis
  qed
  have noop: "liveBlocks_updateForUse fn order s user bitNo (Suc bitNo) useBeforeDefBits =
        Inr (s, [LiveOut])"
    if "isInitialized s" "getBlockLiveness s (getParent user) bitNo = LiveOut"
      "\<not> useBeforeDefBits bitNo"
    using liveBlocks_updateForUse_noop [of s bitNo "Suc bitNo" user useBeforeDefBits fn order] that
    by (simp add: getBlockLivenessRange_def)
  show ?thesis using seq returns one noop by blast
qed


text \<open>
  In the chain of scenario 4 a lifetime-ending use of the bit in \<open>Exit\<close> makes \<open>Mid\<close>
  live-out; a second use in \<open>Mid\<close>, flagged as a use before the definition, runs the
  propagation again and leaves \<open>Mid\<close> live-out.
\<close>

theorem liveness_monotone_witness:
  "isInitialized (liveBlocks untouchedLiveness) \<and>
   (\<exists>liveness1 liveness2.
      applyCalls tagUse tagNonUse chainFunction Stack untouchedLiveness
        [UpdateForUse (SILInstruction 2 0) (TypeTreeLeafTypeRange 0 1) True (\<lambda>bitNo. False)]
        = Inr liveness1 \<and>
      applyCalls tagUse tagNonUse chainFunction Stack untouchedLiveness
        ([UpdateForUse (SILInstruction 2 0) (TypeTreeLeafTypeRange 0 1) True (\<lambda>bitNo. False)] @
         [UpdateForUse (SILInstruction 1 0) (TypeTreeLeafTypeRange 0 1) False (\<lambda>bitNo. True)])
        = Inr liveness2 \<and>
      getBlockLiveness (liveBlocks untouchedLiveness) 1 0 = Dead \<and>
      getBlockLiveness (liveBlocks liveness1) 1 0 = LiveOut \<and>
      getBlockLiveness (liveBlocks liveness2) 1 0 = LiveOut)"
proof -
  let ?calls1 = "[UpdateForUse (SILInstruction 2 0) (TypeTreeLeafTypeRange 0 1) True (\<lambda>bitNo. False)]"
  let ?calls2 = "[UpdateForUse (SILInstruction 1 0) (TypeTreeLeafTypeRange 0 1) False (\<lambda>bitNo. True)]"
  have init: "isInitialized (liveBlocks untouchedLiveness)"
    by (simp add: untouchedLiveness_def untouchedLiveBlocks_def isInitialized_def)
  have ranges: "\<forall>call \<in> set (?calls1 @ ?calls2). wellFormedRange (callRange call)"
    by (simp add: wellFormedRange_def TypeTreeLeafTypeRange_def)
  have first: "case applyCalls tagUse tagNonUse chainFunction Stack untouchedLiveness ?calls1 of
      Inl e \<Rightarrow> False
    | Inr liveness1 \<Rightarrow> getBlockLiveness (liveBlocks liveness1) 1 0 = LiveOut"
    by (simp add: chainFunction_def untouchedLiveness_def untouchedLiveBlocks_def
        liveness_updateForUse_def liveBlocks_updateForUse_def isInitialized_def
        getBlockLivenessRange_def TypeTreeLeafTypeRange_def unsignedDifference_def Let_def
        computeScalarUseBlockLiveness_def computeScalarUseBlockLiveness_loop.simps push_def
        emptyWorklist_def markBlockLive_def getBlockLiveness_def getPredecessorBlocks_def
        pushIfNotVisited_def)
  from liveness_monotone [of tagUse tagNonUse chainFunction Stack untouchedLiveness
      "?calls1 @ ?calls2" "[]"] init ranges
  obtain liveness2 where
    all: "applyCalls tagUse tagNonUse chainFunction Stack untouchedLiveness (?calls1 @ ?calls2) =
      Inr liveness2"
    by blast
  from liveness_monotone [of tagUse tagNonUse chainFunction Stack untouchedLiveness
      ?calls1 ?calls2 liveness2 1 0] all
  obtain liveness1 where
    one: "applyCalls tagUse tagNonUse chainFunction Stack untouchedLiveness ?calls1 = Inr liveness1"
    and keep: "getBlockLiveness (liveBlocks liveness1) 1 0 = LiveOut \<longrightarrow>
      getBlockLiveness (liveBlocks liveness2) 1 0 = LiveOut"
    by blast
  have out1: "getBlockLiveness (liveBlocks liveness1) 1 0 = LiveOut" using first one by simp
  have dead: "getBlockLiveness (liveBlocks untouchedLiveness) 1 0 = Dead"
    by (simp add: untouchedLiveness_def untouchedLiveBlocks_def getBlockLiveness_def)
  show ?thesis using init one all out1 keep dead by blast
qed

section \<open>The claims about the multi-definition live range\<close>

text \<open>
  Claim C7, as amended. \<^verbatim>\<open>isUserBeforeDef(user, bit)\<close> returns true exactly when the
  block of the user is a definition block of the bit, no argument of the block defines
  the bit, and no definition of the bit is found walking backward from the user to the
  start of the block. It returns false otherwise: in a block that does not define the
  bit, in a block one of whose arguments defines the bit, and when an instruction before
  the user defines the bit.
\<close>

theorem isUserBeforeDef_exactly:
  "isUserBeforeDef fn liveRange user element \<longleftrightarrow>
     isDefBlock liveRange (getParent user) element \<and>
     \<not> list_ex (\<lambda>arg. isDef liveRange (ArgumentNode arg) element)
         (getArguments fn (getParent user)) \<and>
     \<not> definitionFoundWalkingBackward liveRange user element"
  by (cases user) (simp add: isUserBeforeDef_def Let_def isUserBeforeDef_loop_walk)

text \<open>
  Claim C7 as stated fails where the definition of the bit in the block is a block
  argument: the walk backward from the first instruction finds no definition, the claim
  has the use before the definition, and the function returns false. It fails as well in
  a block that does not define the bit.
\<close>

theorem isUserBeforeDef_argument_counterexample:
  "isUserBeforeDef argumentFunction argumentDefRange (SILInstruction 0 1) 0 \<noteq>
     (\<not> definitionFoundWalkingBackward argumentDefRange (SILInstruction 0 1) 0) \<and>
   \<not> isUserBeforeDef argumentFunction argumentDefRange (SILInstruction 0 1) 0 \<and>
   \<not> definitionFoundWalkingBackward argumentDefRange (SILInstruction 0 1) 0 \<and>
   isDef argumentDefRange (ArgumentNode (SILArgument 0 0)) 0 \<and>
   \<not> isUserBeforeDef argumentFunction argumentDefRange (SILInstruction 1 1) 0 \<and>
   \<not> definitionFoundWalkingBackward argumentDefRange (SILInstruction 1 1) 0"
  by (simp add: isUserBeforeDef_def Let_def argumentFunction_def argumentDefRange_def
      definitionFoundWalkingBackward_def isDefBlock_def isDef_def defs_find_def
      getArguments_def contains_def TypeTreeLeafTypeRange_def)

section \<open>The claims about the boundary\<close>

text \<open>
  Claim C2. For a block that is live-out for a bit, the loop of \<^verbatim>\<open>computeBoundary\<close>
  over its successors sets the bit in the boundary edges of exactly the successors that
  are dead for the bit, and changes nothing else in the boundary. In the single-definition
  variant \<^verbatim>\<open>findBoundariesInBlock\<close> with \<open>isLiveOut\<close> returns the boundary as it
  received it, so that a live-out block adds no last user and no dead definition; and in
  a boundary computed from the empty one, a successor of a discovered block that is
  live-out for a tracked bit has the bit in its boundary edges exactly when the successor
  is dead for the bit.
\<close>

theorem boundary_edges_of_live_out_blocks:
  "(b \<in> getBits (boundaryEdges (markDeadSuccessors fn liveness block index boundary)) S \<longleftrightarrow>
      b \<in> getBits (boundaryEdges boundary) S \<or>
      (b = index \<and> S \<in> set (getSuccessors fn block) \<and>
       getBlockLiveness (liveBlocks liveness) S index = Dead)) \<and>
   lastUsers (markDeadSuccessors fn liveness block index boundary) = lastUsers boundary \<and>
   deadDefs (markDeadSuccessors fn liveness block index boundary) = deadDefs boundary \<and>
   (isInitialized (liveBlocks liveRange) \<longrightarrow>
      ssa_findBoundariesInBlock fn liveRange block index True boundary = Inr boundary) \<and>
   (ssa_computeBoundary fn liveRange emptyBoundary = Inr boundary' \<and>
    numBitsToTrack (liveBlocks liveRange) = Some numBits \<and> b < numBits \<and>
    block \<in> set (discoveredBlocks (liveBlocks liveRange)) \<and>
    getBlockLiveness (liveBlocks liveRange) block b = LiveOut \<and>
    S \<in> set (getSuccessors fn block) \<longrightarrow>
      (b \<in> getBits (boundaryEdges boundary') S \<longleftrightarrow>
       getBlockLiveness (liveBlocks liveRange) S b = Dead))"
proof -
  have whole: "b \<in> getBits (boundaryEdges boundary') S \<longleftrightarrow>
       getBlockLiveness (liveBlocks liveRange) S b = Dead"
    if ret: "ssa_computeBoundary fn liveRange emptyBoundary = Inr boundary'"
      and bits: "numBitsToTrack (liveBlocks liveRange) = Some numBits" "b < numBits"
      and disc: "block \<in> set (discoveredBlocks (liveBlocks liveRange))"
      and out: "getBlockLiveness (liveBlocks liveRange) block b = LiveOut"
      and succ: "S \<in> set (getSuccessors fn block)"
  proof -
    from ret have blocks: "computeBoundary_blocks fn (ssa_findBoundariesInBlock fn liveRange)
        liveRange (discoveredBlocks (liveBlocks liveRange)) emptyBoundary = Inr boundary'"
      by (simp add: ssa_computeBoundary_def computeBoundary_def split: if_splits)
    have "b \<notin> getBits (boundaryEdges emptyBoundary) S"
      by (simp add: emptyBoundary_def getBits_def)
    with computeBoundary_blocks_edges [OF ssa_findBoundariesInBlock_edges blocks,
        where b = b and S = S]
    show ?thesis using bits disc out succ by auto
  qed
  have liveOut: "ssa_findBoundariesInBlock fn liveRange block index True boundary = Inr boundary"
    if "isInitialized (liveBlocks liveRange)"
    using that by (simp add: ssa_findBoundariesInBlock_def)
  show ?thesis
    using whole liveOut markDeadSuccessors_edges [of b fn liveness block index boundary S]
      markDeadSuccessors_others [of fn liveness block index boundary]
    by blast
qed

text \<open>
  Scenario 5 of the specification: the boundary has the edge into the successor that
  never uses the value, no edge into the successor that uses it, and the use as the only
  last user.
\<close>

theorem boundary_edges_of_live_out_blocks_witness:
  "ssa_computeBoundary forkFunction forkRange emptyBoundary =
     Inr \<lparr>lastUsers = [(SILInstruction 2 0, {0})], boundaryEdges = [(1, {0})], deadDefs = []\<rparr> \<and>
   isInitialized (liveBlocks forkRange) \<and>
   getBlockLiveness (liveBlocks forkRange) 0 0 = LiveOut \<and>
   getBlockLiveness (liveBlocks forkRange) 1 0 = Dead \<and>
   0 \<in> getBits (boundaryEdges
          \<lparr>lastUsers = [(SILInstruction 2 0, {0})], boundaryEdges = [(1, {0})], deadDefs = []\<rparr>) 1 \<and>
   0 \<notin> getBits (boundaryEdges
          \<lparr>lastUsers = [(SILInstruction 2 0, {0})], boundaryEdges = [(1, {0})], deadDefs = []\<rparr>) 2 \<and>
   ssa_findBoundariesInBlock forkFunction forkRange 0 0 True emptyBoundary = Inr emptyBoundary"
proof -
  let ?result = "\<lparr>lastUsers = [(SILInstruction 2 0, {0})], boundaryEdges = [(1, {0})],
    deadDefs = []\<rparr>"
  have ret: "ssa_computeBoundary forkFunction forkRange emptyBoundary = Inr ?result"
    by (simp add: ssa_computeBoundary_def computeBoundary_def forkFunction_def forkRange_def
      isInitialized_def getAllBlockLiveness_def getBlockLivenessRange_def getBlockLiveness_def
      markDeadSuccessors_def getSuccessors_def ssa_findBoundariesInBlock_def emptyBoundary_def
      setBoundaryEdgeBit_def setBit_def ssa_isDefBlock_def findBoundaryInNonDefBlock_def
      getInstructions_def upt_rec isInterestingUser_def setLastUserBit_def Let_def
      contains_def TypeTreeLeafTypeRange_def)
  have facts: "isInitialized (liveBlocks forkRange)"
    "numBitsToTrack (liveBlocks forkRange) = Some 1"
    "0 \<in> set (discoveredBlocks (liveBlocks forkRange))"
    "getBlockLiveness (liveBlocks forkRange) 0 0 = LiveOut"
    "getBlockLiveness (liveBlocks forkRange) 1 0 = Dead"
    "getBlockLiveness (liveBlocks forkRange) 2 0 \<noteq> Dead"
    "1 \<in> set (getSuccessors forkFunction 0)"
    "2 \<in> set (getSuccessors forkFunction 0)"
    by (simp_all add: forkRange_def forkFunction_def isInitialized_def getBlockLiveness_def
        getSuccessors_def)
  have one: "0 \<in> getBits (boundaryEdges ?result) 1"
    using boundary_edges_of_live_out_blocks [of 0 forkFunction forkRange 0 0 emptyBoundary 1
        forkRange ?result 1] ret facts
    by blast
  have two: "0 \<notin> getBits (boundaryEdges ?result) 2"
    using boundary_edges_of_live_out_blocks [of 0 forkFunction forkRange 0 0 emptyBoundary 2
        forkRange ?result 1] ret facts
    by blast
  have three: "ssa_findBoundariesInBlock forkFunction forkRange 0 0 True emptyBoundary =
      Inr emptyBoundary"
    using boundary_edges_of_live_out_blocks [of 0 forkFunction forkRange 0 0 emptyBoundary 1
        forkRange ?result 1] facts(1)
    by blast
  show ?thesis using ret facts one two three by blast
qed

text \<open>
  In the multi-definition variant the search of a block can record the entry edge of the
  block itself (claim C3), so that a successor of a live-out block that is not dead for
  the bit has the bit in its boundary edges: block \<open>1\<close> of the function with two
  definitions is live-within, and the boundary has its entry edge.
\<close>

lemma multiDef_boundary_edge_on_live_successor:
  "multiDef_computeBoundary redefiningFunction redefiningRange emptyBoundary =
     Inr \<lparr>lastUsers = [(SILInstruction 1 1, {0})], boundaryEdges = [(1, {0})], deadDefs = []\<rparr> \<and>
   getBlockLiveness (liveBlocks redefiningRange) 0 0 = LiveOut \<and>
   getSuccessors redefiningFunction 0 = [1] \<and>
   getBlockLiveness (liveBlocks redefiningRange) 1 0 = LiveWithin"
  by (simp add: multiDef_computeBoundary_def computeBoundary_def findBoundariesInBlock_def
      redefiningFunction_def redefiningRange_def isInitialized_def isDefBlock_def isDef_def
      defs_find_def contains_def TypeTreeLeafTypeRange_def Let_def scanBlock_def
      getInstructions_def upt_rec isInterestingUser_def emptyBoundary_def
      getNumLastUsersAndDeadDefs_def setLastUserBit_def setDeadDefsBit_def setBit_def
      markEntryEdge_def markDeadArguments_def getArguments_def getPredecessorBlocks_def
      allPredecessorsLiveOut_def getBlockLiveness_def setBoundaryEdgeBit_def
      getAllBlockLiveness_def getBlockLivenessRange_def markDeadSuccessors_def
      getSuccessors_def)

text \<open>
  Claim C3. In the search of the multi-definition variant through a definition block of
  a bit (more or fewer than one definition in the live range), when the backward scan
  reaches the top of the block with the bit not live and the block has a predecessor, the
  bit is recorded in the boundary edges of the block if and only if every predecessor of
  the block is live-out for the bit: it is in the entry of the block afterwards exactly
  when it was there before or all predecessors are live-out, and no other bit and no
  other block's entry changes.
\<close>

theorem entry_edge_unanimity:
  assumes "findBoundariesInBlock fn liveRange block bitNo isLiveOut boundary = Inr boundary'"
    and "isDefBlock liveRange block bitNo"
    and "length (defs liveRange) \<noteq> 1"
    and "\<not> fst (scanBlock fn liveRange block bitNo isLiveOut boundary)"
    and "getPredecessorBlocks fn block \<noteq> []"
  shows "(bitNo \<in> getBits (boundaryEdges boundary') block \<longleftrightarrow>
           bitNo \<in> getBits (boundaryEdges boundary) block \<or>
           (\<forall>predBlock \<in> set (getPredecessorBlocks fn block).
              getBlockLiveness (liveBlocks liveRange) predBlock bitNo = LiveOut)) \<and>
         (block' \<noteq> block \<or> b \<noteq> bitNo \<longrightarrow>
            (b \<in> getBits (boundaryEdges boundary') block' \<longleftrightarrow>
             b \<in> getBits (boundaryEdges boundary) block'))"
proof -
  obtain isLive boundary1 where scan:
    "scanBlock fn liveRange block bitNo isLiveOut boundary = (isLive, boundary1)"
    by (cases "scanBlock fn liveRange block bitNo isLiveOut boundary")
  have dead: "\<not> isLive" using assms(4) scan by simp
  have e1: "boundaryEdges boundary1 = boundaryEdges boundary"
    using scanBlock_edges [of fn liveRange block bitNo isLiveOut boundary] scan by simp
  have notOne: "\<And>onlyDef. defs liveRange \<noteq> [onlyDef]" using assms(3) by auto
  have "boundary' = markEntryEdge fn liveRange block bitNo
      (markDeadArguments fn liveRange block bitNo boundary1)"
    using assms(1,2) scan notOne dead
    by (auto simp: findBoundariesInBlock_def Let_def split: if_splits list.splits)
  then show ?thesis using e1 assms(5)
    by (auto simp: markEntryEdge_def markDeadArguments_edges getBits_setBoundaryEdgeBit
        allPredecessorsLiveOut_iff split: if_splits)
qed

text \<open>
  Block \<open>1\<close> of the function with two definitions defines the bit anew before it uses it:
  the scan reaches its top with the bit not live, its only predecessor is live-out, and
  the search records the entry edge of block \<open>1\<close> next to the last user.
\<close>

theorem entry_edge_unanimity_witness:
  "findBoundariesInBlock redefiningFunction redefiningRange 1 0 False emptyBoundary =
     Inr \<lparr>lastUsers = [(SILInstruction 1 1, {0})], boundaryEdges = [(1, {0})], deadDefs = []\<rparr> \<and>
   isDefBlock redefiningRange 1 0 \<and>
   length (defs redefiningRange) \<noteq> 1 \<and>
   \<not> fst (scanBlock redefiningFunction redefiningRange 1 0 False emptyBoundary) \<and>
   getPredecessorBlocks redefiningFunction 1 = [0] \<and>
   getBlockLiveness (liveBlocks redefiningRange) 0 0 = LiveOut \<and>
   0 \<in> getBits (boundaryEdges
          \<lparr>lastUsers = [(SILInstruction 1 1, {0})], boundaryEdges = [(1, {0})], deadDefs = []\<rparr>) 1"
proof -
  let ?result = "\<lparr>lastUsers = [(SILInstruction 1 1, {0})], boundaryEdges = [(1, {0})],
    deadDefs = []\<rparr>"
  have ret: "findBoundariesInBlock redefiningFunction redefiningRange 1 0 False emptyBoundary =
      Inr ?result"
    by (simp add: findBoundariesInBlock_def redefiningFunction_def redefiningRange_def
      isInitialized_def isDefBlock_def isDef_def defs_find_def contains_def
      TypeTreeLeafTypeRange_def Let_def scanBlock_def getInstructions_def upt_rec
      isInterestingUser_def emptyBoundary_def getNumLastUsersAndDeadDefs_def setLastUserBit_def
      setDeadDefsBit_def setBit_def markEntryEdge_def markDeadArguments_def getArguments_def
      getPredecessorBlocks_def allPredecessorsLiveOut_def getBlockLiveness_def
      setBoundaryEdgeBit_def)
  have defBlock: "isDefBlock redefiningRange 1 0"
    by (simp add: redefiningRange_def isDefBlock_def contains_def TypeTreeLeafTypeRange_def)
  have multi: "length (defs redefiningRange) \<noteq> 1" by (simp add: redefiningRange_def)
  have top: "\<not> fst (scanBlock redefiningFunction redefiningRange 1 0 False emptyBoundary)"
    by (simp add: redefiningFunction_def redefiningRange_def isDef_def defs_find_def contains_def
      TypeTreeLeafTypeRange_def Let_def scanBlock_def getInstructions_def upt_rec
      isInterestingUser_def)
  have preds: "getPredecessorBlocks redefiningFunction 1 = [0]"
    by (simp add: redefiningFunction_def getPredecessorBlocks_def)
  have out: "getBlockLiveness (liveBlocks redefiningRange) 0 0 = LiveOut"
    by (simp add: redefiningRange_def getBlockLiveness_def)
  have nonempty: "getPredecessorBlocks redefiningFunction 1 \<noteq> []" using preds by simp
  have "0 \<in> getBits (boundaryEdges ?result) 1"
    using entry_edge_unanimity [OF ret defBlock multi top nonempty, of 1 0] preds out by simp
  then show ?thesis using ret defBlock multi top preds out by blast
qed

section \<open>The claim about the search for an earlier consuming use\<close>




end
